theory Spec2Isabelle
  imports Main "HOL-Library.Char_ord" "HOL-Library.List_Lexorder"
begin

section \<open>Go strings and the library functions the program calls\<close>

text \<open>
  A Go \<^verbatim>\<open>string\<close> (and a \<^verbatim>\<open>[]byte\<close>) is a sequence of bytes; \<^typ>\<open>string\<close> is a list
  of 8-bit characters, so \<^const>\<open>length\<close> is Go's \<^verbatim>\<open>len\<close> and \<^const>\<open>drop\<close> is slicing
  \<^verbatim>\<open>s[n:]\<close>.
\<close>

abbreviation NL :: char where
  "NL \<equiv> CHR 0x0A"

text \<open>\<^verbatim>\<open>strings.Split(s, sep)\<close> for a one-byte separator: never empty, \<^verbatim>\<open>Split("", sep) = [""]\<close>.\<close>

fun splitOn :: "char \<Rightarrow> string \<Rightarrow> string list" where
  "splitOn sep [] = [[]]"
| "splitOn sep (c # cs) =
     (if c = sep then [] # splitOn sep cs
      else (c # hd (splitOn sep cs)) # tl (splitOn sep cs))"

text \<open>\<^verbatim>\<open>strings.Join(parts, sep)\<close> for a one-byte separator.\<close>

fun joinWith :: "char \<Rightarrow> string list \<Rightarrow> string" where
  "joinWith sep [] = []"
| "joinWith sep [p] = p"
| "joinWith sep (p # q # ps) = p @ sep # joinWith sep (q # ps)"

section \<open>Candidate resolver: splitting a symbol specification\<close>

text \<open>
  \<^verbatim>\<open>
  func splitSymbol(spec string) (string, string) {
      if spec == "" { return "", "" }
      parts := strings.Split(spec, ".")
      if len(parts) == 1 { return parts[0], "" }
      return parts[0], strings.Join(parts[1:], ".")
  }
  \<close>
  \<^verbatim>\<open>parts\<close> is never empty, so \<^verbatim>\<open>parts[0]\<close> is \<^term>\<open>hd parts\<close>.
\<close>

definition splitSymbol :: "string \<Rightarrow> string \<times> string" where
  "splitSymbol spec =
     (if spec = [] then ([], [])
      else let parts = splitOn (CHR ''.'') spec in
        if length parts = 1 then (hd parts, [])
        else (hd parts, joinWith (CHR ''.'') (tl parts)))"

section \<open>Candidate resolver\<close>

text \<open>The struct \<^verbatim>\<open>invocation\<close>: one guess at what the user meant.\<close>

record invocation =
  pkgExpr :: string  symbol :: string  "method" :: string

text \<open>Every error value the modelled functions return.\<close>

datatype error =
    LoadError string \<comment> \<open>the error \<^verbatim>\<open>packages.Load\<close> itself returned\<close>
  | NoPackagesMatched string \<comment> \<open>\<^verbatim>\<open>no Go packages matched %q\<close>\<close>
  | PackageError string \<comment> \<open>\<^verbatim>\<open>fmt.Errorf("%s", pkg.Errors[0])\<close>\<close>
  | CouldNotResolve string \<comment> \<open>\<^verbatim>\<open>could not resolve package path for %q\<close>\<close>
  | TooManyArguments \<comment> \<open>\<^verbatim>\<open>too many positional arguments\<close>\<close>

text \<open>
  \<^verbatim>\<open>
  func startsWithUpper(s string) bool {
      if s == "" { return false }
      r, _ := utf8.DecodeRuneInString(s)
      return unicode.IsUpper(r)
  }
  \<close>
  A first byte below \<^verbatim>\<open>0x80\<close> is the rune itself, upper-case exactly for \<^verbatim>\<open>A\<close> to \<^verbatim>\<open>Z\<close>.
  For a longer encoding the answer is in Unicode's tables, which the parameter
  \<open>upperMB\<close> stands for: it is given the string and tells whether its first rune is
  upper-case.
\<close>

definition startsWithUpper :: "(string \<Rightarrow> bool) \<Rightarrow> string \<Rightarrow> bool" where
  "startsWithUpper upperMB s =
     (case s of
        [] \<Rightarrow> False
      | c # _ \<Rightarrow>
          if (of_char c :: nat) < 128 then 65 \<le> (of_char c :: nat) \<and> (of_char c :: nat) \<le> 90
          else upperMB s)"

text \<open>
  The closure \<^verbatim>\<open>add\<close> of \<^verbatim>\<open>singleArgCandidates\<close>, on the pair of the map \<^verbatim>\<open>seen\<close> (a set of
  keys) and the slice \<^verbatim>\<open>candidates\<close>:
  \<^verbatim>\<open>
  add := func(pkgExpr, symbol, method string) {
      key := pkgExpr + "|" + symbol + "|" + method
      if _, ok := seen[key]; ok { return }
      seen[key] = struct{}{}
      cand := invocation{pkgExpr: pkgExpr, symbol: symbol, method: method}
      if cand.pkgExpr == "" { cand.pkgExpr = "." }
      candidates = append(candidates, cand)
  }
  \<close>
\<close>

definition add :: "string \<Rightarrow> string \<Rightarrow> string \<Rightarrow>
    string set \<times> invocation list \<Rightarrow> string set \<times> invocation list" where
  "add p s m st =
     (let key = p @ ''|'' @ s @ ''|'' @ m in
      if key \<in> fst st then st
      else (insert key (fst st),
            snd st @ [\<lparr>pkgExpr = (if p = [] then ''.'' else p), symbol = s, method = m\<rparr>]))"

text \<open>
  \<^verbatim>\<open>
  func parseCompound(arg string) []invocation {
      var result []invocation
      for i := 0; i < len(arg); i++ {
          if arg[i] != '.' { continue }
          pkgExpr := arg[:i]
          symbolSpec := arg[i+1:]
          if pkgExpr == "" { continue }
          symbol, method := splitSymbol(symbolSpec)
          result = append(result, invocation{pkgExpr, symbol, method})
      }
      return result
  }
  \<close>
  The loop, from index \<open>i\<close> with the slice built so far.
\<close>

function parseCompoundFrom :: "string \<Rightarrow> nat \<Rightarrow> invocation list \<Rightarrow> invocation list" where
  "parseCompoundFrom arg i result =
     (if i < length arg then
        (if arg ! i \<noteq> CHR ''.'' then parseCompoundFrom arg (i + 1) result
         else if take i arg = [] then parseCompoundFrom arg (i + 1) result
         else parseCompoundFrom arg (i + 1)
                (result @ [\<lparr>pkgExpr = take i arg,
                              symbol = fst (splitSymbol (drop (i + 1) arg)),
                              method = snd (splitSymbol (drop (i + 1) arg))\<rparr>]))
      else result)"
  by pat_completeness auto
termination
  by (relation "measure (\<lambda>(arg, i, result). length arg - i)") auto

definition parseCompound :: "string \<Rightarrow> invocation list" where
  "parseCompound arg = parseCompoundFrom arg 0 []"

text \<open>
  \<^verbatim>\<open>
  func singleArgCandidates(arg string) []invocation {
      ...
      if startsWithUpper(arg) && !strings.ContainsAny(arg, `/\`) {
          symbol, method := splitSymbol(arg)
          add(".", symbol, method)
      }
      add(arg, "", "")
      if strings.Contains(arg, ".") {
          for _, cand := range parseCompound(arg) {
              add(cand.pkgExpr, cand.symbol, cand.method)
          }
      }
      symbol, method := splitSymbol(arg)
      add(".", symbol, method)
      return candidates
  }
  \<close>
\<close>

definition addAll :: "invocation list \<Rightarrow>
    string set \<times> invocation list \<Rightarrow> string set \<times> invocation list" where
  "addAll cands st = foldl (\<lambda>st cand. add (pkgExpr cand) (symbol cand) (method cand) st) st cands"

definition singleArgCandidates :: "(string \<Rightarrow> bool) \<Rightarrow> string \<Rightarrow> invocation list" where
  "singleArgCandidates upperMB arg =
     (let st0 = ({}, []);
          st1 = (if startsWithUpper upperMB arg
                    \<and> \<not> (CHR ''/'' \<in> set arg \<or> CHR 0x5C \<in> set arg)
                 then add ''.'' (fst (splitSymbol arg)) (snd (splitSymbol arg)) st0
                 else st0);
          st2 = add arg [] [] st1;
          st3 = (if CHR ''.'' \<in> set arg then addAll (parseCompound arg) st2 else st2);
          st4 = add ''.'' (fst (splitSymbol arg)) (snd (splitSymbol arg)) st3
      in snd st4)"

text \<open>
  \<^verbatim>\<open>
  func buildCandidates(args []string) ([]invocation, error) {
      switch len(args) {
      case 0: return []invocation{{pkgExpr: "."}}, nil
      case 1: return singleArgCandidates(args[0]), nil
      case 2:
          symbol, method := splitSymbol(args[1])
          return []invocation{{pkgExpr: args[0], symbol: symbol, method: method}}, nil
      default:
          return nil, errors.New("too many positional arguments")
      }
  }
  \<close>
\<close>

fun buildCandidates :: "(string \<Rightarrow> bool) \<Rightarrow> string list \<Rightarrow> error + invocation list" where
  "buildCandidates upperMB [] = Inr [\<lparr>pkgExpr = ''.'', symbol = [], method = []\<rparr>]"
| "buildCandidates upperMB [a] = Inr (singleArgCandidates upperMB a)"
| "buildCandidates upperMB [a, b] =
     Inr [\<lparr>pkgExpr = a, symbol = fst (splitSymbol b), method = snd (splitSymbol b)\<rparr>]"
| "buildCandidates upperMB (a # b # c # rest) = Inl TooManyArguments"

text \<open>
  The candidate list in the words of the specification: the four groups in order, then
  deduplicated on the triple itself, the first occurrence kept.
\<close>

fun dedupFirst :: "'a list \<Rightarrow> 'a list \<Rightarrow> 'a list" where
  "dedupFirst seen [] = []"
| "dedupFirst seen (x # xs) =
     (if x \<in> set seen then dedupFirst seen xs else x # dedupFirst (x # seen) xs)"

definition candidatesSpec :: "(string \<Rightarrow> bool) \<Rightarrow> string \<Rightarrow> invocation list" where
  "candidatesSpec upperMB arg =
     (let local = \<lparr>pkgExpr = ''.'', symbol = fst (splitSymbol arg), method = snd (splitSymbol arg)\<rparr>
      in dedupFirst []
           ((if startsWithUpper upperMB arg \<and> \<not> (CHR ''/'' \<in> set arg \<or> CHR 0x5C \<in> set arg)
             then [local] else [])
            @ [\<lparr>pkgExpr = arg, symbol = [], method = []\<rparr>]
            @ (if CHR ''.'' \<in> set arg then parseCompound arg else [])
            @ [local]))"


text \<open>
  A table for \<^const>\<open>startsWithUpper\<close> that calls no multi-byte rune upper-case. The
  concrete inputs below begin with an ASCII byte or are empty, where the table is never
  consulted.
\<close>

definition noUpperMB :: "string \<Rightarrow> bool" where
  "noUpperMB s = False"

text \<open>
  What \<^const>\<open>singleArgCandidates\<close> does, as list functions. \<open>rawCandidates\<close> are the
  triples it passes to \<^verbatim>\<open>add\<close>, in the order of the calls; \<open>candKey\<close> is the key \<^verbatim>\<open>add\<close>
  builds; \<open>dedupKeys\<close> keeps the first triple of every key not yet in \<^verbatim>\<open>seen\<close>;
  \<open>normPkg\<close> is the replacement \<^verbatim>\<open>if cand.pkgExpr == "" { cand.pkgExpr = "." }\<close>.
\<close>

definition rawCandidates :: "(string \<Rightarrow> bool) \<Rightarrow> string \<Rightarrow> invocation list" where
  "rawCandidates upperMB arg =
     (let local = \<lparr>pkgExpr = ''.'', symbol = fst (splitSymbol arg), method = snd (splitSymbol arg)\<rparr>
      in (if startsWithUpper upperMB arg \<and> \<not> (CHR ''/'' \<in> set arg \<or> CHR 0x5C \<in> set arg)
          then [local] else [])
         @ [\<lparr>pkgExpr = arg, symbol = [], method = []\<rparr>]
         @ (if CHR ''.'' \<in> set arg then parseCompound arg else [])
         @ [local])"

definition candKey :: "invocation \<Rightarrow> string" where
  "candKey c = pkgExpr c @ ''|'' @ symbol c @ ''|'' @ method c"

fun dedupKeys :: "string set \<Rightarrow> invocation list \<Rightarrow> invocation list" where
  "dedupKeys seen [] = []"
| "dedupKeys seen (c # cs) =
     (if candKey c \<in> seen then dedupKeys seen cs
      else c # dedupKeys (insert (candKey c) seen) cs)"

definition normPkg :: "invocation \<Rightarrow> invocation" where
  "normPkg c = c\<lparr>pkgExpr := (if pkgExpr c = [] then ''.'' else pkgExpr c)\<rparr>"

declare parseCompoundFrom.simps [simp del]

section \<open>Package resolver\<close>

text \<open>
  What the external \<^verbatim>\<open>packages.Load\<close> gives for a loaded package, as far as the resolver
  reads it: the import path and the package's errors, each as the text its
  \<^verbatim>\<open>Error()\<close> method prints.
\<close>

record gopackage =
  pkgPath :: string
  pkgErrors :: "string list"

text \<open>
  \<^verbatim>\<open>
  func loadPackage(ctx context.Context, pattern string) (*packages.Package, error) {
      pkgs, err := packages.Load(cfg, pattern)
      if err != nil { return nil, err }
      if len(pkgs) == 0 { return nil, fmt.Errorf("no Go packages matched %q", pattern) }
      pkg := pkgs[0]
      if len(pkg.Errors) > 0 { return nil, fmt.Errorf("%s", pkg.Errors[0]) }
      return pkg, nil
  }
  \<close>
  The parameter \<open>load\<close> is \<^verbatim>\<open>packages.Load\<close> on one pattern: its error, or the
  packages it found.
\<close>

definition loadPackage :: "(string \<Rightarrow> string + gopackage list) \<Rightarrow> string \<Rightarrow> error + gopackage" where
  "loadPackage load pattern =
     (case load pattern of
        Inl err \<Rightarrow> Inl (LoadError err)
      | Inr pkgs \<Rightarrow>
          if length pkgs = 0 then Inl (NoPackagesMatched pattern)
          else let pkg = hd pkgs in
            if length (pkgErrors pkg) > 0 then Inl (PackageError (hd (pkgErrors pkg)))
            else Inr pkg)"

text \<open>\<^verbatim>\<open>strings.HasSuffix\<close> and \<^verbatim>\<open>bytes.HasSuffix\<close>.\<close>

definition hasSuffix :: "string \<Rightarrow> string \<Rightarrow> bool" where
  "hasSuffix s suf = (length suf \<le> length s \<and> drop (length s - length suf) s = suf)"

text \<open>
  The process-wide variables \<^verbatim>\<open>stdPackages\<close> and \<^verbatim>\<open>stdErr\<close>, filled once by
  \<^verbatim>\<open>loadStdPackages\<close> from \<^verbatim>\<open>packages.Load(cfg, "std", "cmd/...")\<close>, whose outcome is the
  parameter \<open>stdLoad\<close>:
  \<^verbatim>\<open>
  func loadStdPackages() {
      pkgs, err := packages.Load(cfg, "std", "cmd/...")
      if err != nil { stdErr = err; return }
      for _, pkg := range pkgs { stdPackages = append(stdPackages, pkg.PkgPath) }
      sort.Strings(stdPackages)
  }
  \<close>
  Go compares strings byte by byte, which is the lexicographic order of
  \<^verbatim>\<open>List_Lexorder\<close> over the byte order of \<^verbatim>\<open>Char_ord\<close>.
\<close>

record stdCache =
  stdPackages :: "string list"
  stdErr :: "string option"

definition loadStdPackages :: "string + gopackage list \<Rightarrow> stdCache" where
  "loadStdPackages stdLoad =
     (case stdLoad of
        Inl err \<Rightarrow> \<lparr>stdPackages = [], stdErr = Some err\<rparr>
      | Inr pkgs \<Rightarrow> \<lparr>stdPackages = sort (map pkgPath pkgs), stdErr = None\<rparr>)"

text \<open>
  \<^verbatim>\<open>
  func matchStdSuffix(arg string) string {
      if arg == "" { return "" }
      stdOnce.Do(loadStdPackages)
      if stdErr != nil { return "" }
      var best string
      for _, path := range stdPackages {
          if path == arg || strings.HasSuffix(path, "/"+arg) {
              if best == "" || path < best { best = path }
          }
      }
      return best
  }
  \<close>
\<close>

definition matchStdSuffix :: "stdCache \<Rightarrow> string \<Rightarrow> string" where
  "matchStdSuffix cache arg =
     (if arg = [] then []
      else if stdErr cache \<noteq> None then []
      else foldl (\<lambda>best path.
                    if path = arg \<or> hasSuffix path (CHR ''/'' # arg)
                    then (if best = [] \<or> path < best then path else best)
                    else best)
             [] (stdPackages cache))"

text \<open>
  \<^verbatim>\<open>
  func resolvePackage(ctx context.Context, expr string) (*packages.Package, error) {
      try := []string{expr}
      if expr == "" { try = []string{"."} }
      for _, candidate := range try {
          if candidate == "" { continue }
          if pkg, err := loadPackage(ctx, candidate); err == nil { return pkg, nil }
      }
      if match := matchStdSuffix(expr); match != "" { return loadPackage(ctx, match) }
      return nil, fmt.Errorf("could not resolve package path for %q", expr)
  }
  \<close>
  \<open>resolveTry\<close> is the loop over \<^verbatim>\<open>try\<close>: the first package that loads, if any.
\<close>

fun resolveTry :: "(string \<Rightarrow> string + gopackage list) \<Rightarrow> string list \<Rightarrow> gopackage option" where
  "resolveTry load [] = None"
| "resolveTry load (candidate # rest) =
     (if candidate = [] then resolveTry load rest
      else (case loadPackage load candidate of
              Inr pkg \<Rightarrow> Some pkg
            | Inl err \<Rightarrow> resolveTry load rest))"

definition resolvePackage ::
    "(string \<Rightarrow> string + gopackage list) \<Rightarrow> string + gopackage list \<Rightarrow> string \<Rightarrow> error + gopackage" where
  "resolvePackage load stdLoad expr =
     (let try = (if expr = [] then [''.''] else [expr]) in
      case resolveTry load try of
        Some pkg \<Rightarrow> Inr pkg
      | None \<Rightarrow>
          let match = matchStdSuffix (loadStdPackages stdLoad) expr in
          if match \<noteq> [] then loadPackage load match
          else Inl (CouldNotResolve expr))"

text \<open>A loader for which every pattern is malformed.\<close>

definition failingLoad :: "string \<Rightarrow> string + gopackage list" where
  "failingLoad pattern = Inl ''malformed import path''"

section \<open>Tree aggregator: the table of contents\<close>

record tocEntry =
  title :: string
  link :: string
  summary :: string

text \<open>
  The eight bytes between the spaces of the format string of \<^verbatim>\<open>buildTOC\<close>, as they stand in
  the source file, and the three bytes of U+2014 EM DASH in UTF-8, as they stand in the
  format string of \<^verbatim>\<open>bulletLine\<close>.
\<close>

definition tocDash :: string where
  "tocDash = [CHR 0xC3, CHR 0xA2, CHR 0xE2, CHR 0x82, CHR 0xAC, CHR 0xE2, CHR 0x80, CHR 0x9D]"

definition emDash :: string where
  "emDash = [CHR 0xE2, CHR 0x80, CHR 0x94]"

text \<open>
  \<^verbatim>\<open>
  func buildTOC(entries []tocEntry) []byte {
      if len(entries) == 0 { return nil }
      var buf bytes.Buffer
      buf.WriteString("## Packages\n\n")
      for _, entry := range entries {
          if entry.summary != "" {
              fmt.Fprintf(&buf, "- [%s](%s) <tocDash> %s\n", entry.title, entry.link, entry.summary)
          } else {
              fmt.Fprintf(&buf, "- [%s](%s)\n", entry.title, entry.link)
          }
      }
      buf.WriteString("\n")
      return buf.Bytes()
  }
  \<close>
\<close>

definition tocLine :: "string \<Rightarrow> tocEntry \<Rightarrow> string" where
  "tocLine dash entry =
     (if summary entry \<noteq> []
      then ''- ['' @ title entry @ '']('' @ link entry @ '') '' @ dash @ '' '' @ summary entry @ [NL]
      else ''- ['' @ title entry @ '']('' @ link entry @ '')'' @ [NL])"

definition buildTOC :: "tocEntry list \<Rightarrow> string" where
  "buildTOC entries =
     (if length entries = 0 then []
      else foldl (\<lambda>buf entry. buf @ tocLine tocDash entry) (''## Packages'' @ [NL, NL]) entries
           @ [NL])"

text \<open>The table of contents in the words of the specification: the separator is an em dash.\<close>

definition buildTOCSpec :: "tocEntry list \<Rightarrow> string" where
  "buildTOCSpec entries =
     (if entries = [] then []
      else ''## Packages'' @ [NL, NL] @ concat (map (tocLine emDash) entries) @ [NL])"

text \<open>
  \<^verbatim>\<open>
  func appendTOCAfterDoc(doc []byte, toc []byte) []byte {
      if len(toc) == 0 { return append([]byte{}, doc...) }
      if len(doc) == 0 { return append([]byte{}, toc...) }
      content := append([]byte{}, doc...)
      if !bytes.HasSuffix(content, []byte("\n\n")) {
          if bytes.HasSuffix(content, []byte("\n")) {
              content = append(content, '\n')
          } else {
              content = append(content, '\n', '\n')
          }
      }
      content = append(content, toc...)
      return content
  }
  \<close>
\<close>

definition appendTOCAfterDoc :: "string \<Rightarrow> string \<Rightarrow> string" where
  "appendTOCAfterDoc doc toc =
     (if length toc = 0 then doc
      else if length doc = 0 then toc
      else let content = doc;
               content = (if \<not> hasSuffix content [NL, NL]
                          then (if hasSuffix content [NL] then content @ [NL]
                                else content @ [NL, NL])
                          else content)
           in content @ toc)"

text \<open>
  Ending with exactly one blank line, in the words of the specification: the content ends
  with an empty line, and the line before that one is not empty.
\<close>

definition endsWithOneBlankLine :: "string \<Rightarrow> bool" where
  "endsWithOneBlankLine content =
     (hasSuffix content [NL, NL] \<and> \<not> hasSuffix content [NL, NL, NL])"

section \<open>Text utilities of the renderer\<close>

text \<open>
  \<^verbatim>\<open>strings.TrimSpace\<close> removes the leading and trailing runes for which \<^verbatim>\<open>unicode.IsSpace\<close>
  holds. Those runes, in UTF-8: the six ASCII ones, U+0085, U+00A0, U+1680, U+2000 to
  U+200A, U+2028, U+2029, U+202F, U+205F and U+3000. A byte sequence that is not one of
  these encodings decodes to another rune or to the error rune, neither of which is a space.
\<close>

definition spaceRunes :: "string list" where
  "spaceRunes =
     [[CHR 0x09], [CHR 0x0A], [CHR 0x0B], [CHR 0x0C], [CHR 0x0D], [CHR 0x20],
      [CHR 0xC2, CHR 0x85], [CHR 0xC2, CHR 0xA0],
      [CHR 0xE1, CHR 0x9A, CHR 0x80],
      [CHR 0xE2, CHR 0x80, CHR 0x80], [CHR 0xE2, CHR 0x80, CHR 0x81],
      [CHR 0xE2, CHR 0x80, CHR 0x82], [CHR 0xE2, CHR 0x80, CHR 0x83],
      [CHR 0xE2, CHR 0x80, CHR 0x84], [CHR 0xE2, CHR 0x80, CHR 0x85],
      [CHR 0xE2, CHR 0x80, CHR 0x86], [CHR 0xE2, CHR 0x80, CHR 0x87],
      [CHR 0xE2, CHR 0x80, CHR 0x88], [CHR 0xE2, CHR 0x80, CHR 0x89],
      [CHR 0xE2, CHR 0x80, CHR 0x8A],
      [CHR 0xE2, CHR 0x80, CHR 0xA8], [CHR 0xE2, CHR 0x80, CHR 0xA9],
      [CHR 0xE2, CHR 0x80, CHR 0xAF],
      [CHR 0xE2, CHR 0x81, CHR 0x9F],
      [CHR 0xE3, CHR 0x80, CHR 0x80]]"

definition hasPrefix :: "string \<Rightarrow> string \<Rightarrow> bool" where
  "hasPrefix s pre = (take (length pre) s = pre)"

text \<open>The width in bytes of the space rune a string starts with, or ends with; 0 if none.\<close>

definition spaceWidth :: "string \<Rightarrow> nat" where
  "spaceWidth s = (case find (hasPrefix s) spaceRunes of None \<Rightarrow> 0 | Some e \<Rightarrow> length e)"

definition spaceWidthEnd :: "string \<Rightarrow> nat" where
  "spaceWidthEnd s = (case find (hasSuffix s) spaceRunes of None \<Rightarrow> 0 | Some e \<Rightarrow> length e)"

function trimLeft :: "string \<Rightarrow> string" where
  "trimLeft s = (if spaceWidth s = 0 \<or> s = [] then s else trimLeft (drop (spaceWidth s) s))"
  by pat_completeness auto
termination
  by (relation "measure length") auto

function trimRight :: "string \<Rightarrow> string" where
  "trimRight s =
     (if spaceWidthEnd s = 0 \<or> s = [] then s else trimRight (take (length s - spaceWidthEnd s) s))"
  by pat_completeness auto
termination
  by (relation "measure length") auto

definition TrimSpace :: "string \<Rightarrow> string" where
  "TrimSpace s = trimRight (trimLeft s)"

text \<open>
  \<^verbatim>\<open>
  func leadingWhitespace(line string) int {
      count := 0
      for _, r := range line {
          if r == ' ' || r == '\t' { count++; continue }
          break
      }
      return count
  }
  \<close>
  Space and tab are one byte each, and no byte of a longer or broken encoding decodes to
  them, so the count over runes is the count over bytes.
\<close>

fun leadingWhitespace :: "string \<Rightarrow> nat" where
  "leadingWhitespace [] = 0"
| "leadingWhitespace (r # line) =
     (if r = CHR '' '' \<or> r = CHR 0x09 then Suc (leadingWhitespace line) else 0)"

text \<open>
  \<^verbatim>\<open>
  func dedentMarkdown(src string) string {
      lines := strings.Split(src, "\n")
      minIndent := -1
      for _, line := range lines {
          if strings.TrimSpace(line) == "" { continue }
          indent := leadingWhitespace(line)
          if minIndent == -1 || indent < minIndent { minIndent = indent }
      }
      if minIndent <= 0 { return src }
      for i, line := range lines {
          if len(line) >= minIndent { lines[i] = line[minIndent:] }
      }
      return strings.Join(lines, "\n")
  }
  \<close>
\<close>

definition minIndentStep :: "int \<Rightarrow> string \<Rightarrow> int" where
  "minIndentStep minIndent line =
     (if TrimSpace line = [] then minIndent
      else let indent = int (leadingWhitespace line) in
        if minIndent = - 1 \<or> indent < minIndent then indent else minIndent)"

definition dedentMarkdown :: "string \<Rightarrow> string" where
  "dedentMarkdown src =
     (let lines = splitOn NL src;
          minIndent = foldl minIndentStep (- 1) lines
      in if minIndent \<le> 0 then src
         else joinWith NL
                (map (\<lambda>line. if int (length line) \<ge> minIndent then drop (nat minIndent) line
                            else line) lines))"

text \<open>
  \<^verbatim>\<open>
  func (r *markdownRenderer) docMarkdown(text string) string {
      trimmed := strings.TrimSpace(text)
      if trimmed == "" { return "" }
      return dedentMarkdown(trimmed)
  }
  \<close>
\<close>

definition docMarkdown :: "string \<Rightarrow> string" where
  "docMarkdown text =
     (let trimmed = TrimSpace text in if trimmed = [] then [] else dedentMarkdown trimmed)"

text \<open>\<^verbatim>\<open>strings.Index(s, sub)\<close>: the first position where \<open>sub\<close> starts, if any.\<close>

fun indexOf :: "string \<Rightarrow> string \<Rightarrow> nat option" where
  "indexOf [] sub = (if sub = [] then Some 0 else None)"
| "indexOf (c # cs) sub =
     (if hasPrefix (c # cs) sub then Some 0 else map_option Suc (indexOf cs sub))"

text \<open>\<^verbatim>\<open>strings.ReplaceAll(md, "\n", " ")\<close>.\<close>

definition collapseNewlines :: "string \<Rightarrow> string" where
  "collapseNewlines md = map (\<lambda>c. if c = NL then CHR '' '' else c) md"

text \<open>
  \<^verbatim>\<open>
  func (r *markdownRenderer) summaryText(text string) string {
      md := r.docMarkdown(text)
      if md == "" { return "" }
      md = strings.ReplaceAll(md, "\n", " ")
      if idx := strings.Index(md, ". "); idx >= 0 {
          return strings.TrimSpace(md[:idx+1])
      }
      return strings.TrimSpace(md)
  }
  \<close>
\<close>

definition summaryText :: "string \<Rightarrow> string" where
  "summaryText text =
     (let md = docMarkdown text in
      if md = [] then []
      else let md = collapseNewlines md in
        case indexOf md ''. '' of
          Some idx \<Rightarrow> TrimSpace (take (idx + 1) md)
        | None \<Rightarrow> TrimSpace md)"

text \<open>
  The first-sentence summary in the words of the specification: the dedent algorithm on
  the documentation text, newlines collapsed, cut after the period of the first
  period-space, trimmed.
\<close>

definition summarySpec :: "string \<Rightarrow> string" where
  "summarySpec text =
     (let md = collapseNewlines (dedentMarkdown text) in
      case indexOf md ''. '' of
        Some idx \<Rightarrow> TrimSpace (take (idx + 1) md)
      | None \<Rightarrow> TrimSpace md)"

text \<open>
  The dedent algorithm in the words of the specification: the non-blank lines, the
  minimum of their leading-whitespace counts (0 when every line is blank), and the
  stripping of one line.
\<close>

definition nonBlankLines :: "string \<Rightarrow> string list" where
  "nonBlankLines src = filter (\<lambda>line. TrimSpace line \<noteq> []) (splitOn NL src)"

definition minLeading :: "string \<Rightarrow> nat" where
  "minLeading src =
     (if nonBlankLines src = [] then 0 else Min (leadingWhitespace ` set (nonBlankLines src)))"

definition stripLine :: "nat \<Rightarrow> string \<Rightarrow> string" where
  "stripLine n line = (if n \<le> length line then drop n line else line)"

declare trimLeft.simps [simp del] trimRight.simps [simp del]

section \<open>Markdown renderer: the symbol view\<close>

text \<open>
  The documentation package that \<^verbatim>\<open>go/doc\<close> provides, as far as the symbol view reads
  it. The renderer hands every declaration to the external formatter; what the formatter
  returns is part of the data here: \<open>vSource\<close>, \<open>fSource\<close> and \<open>tSource\<close> are
  \<^verbatim>\<open>r.formatNode(x.Decl)\<close>, and \<open>fSignature\<close> is \<^verbatim>\<open>r.signature(f.Decl)\<close>.
\<close>

record docValue =
  vNames :: "string list"
  vDoc :: string
  vSource :: string

record docFunc =
  fName :: string
  fDoc :: string
  fSignature :: string
  fSource :: string

record docType =
  tName :: string
  tDoc :: string
  tSource :: string
  tConsts :: "docValue list"
  tVars :: "docValue list"
  tFuncs :: "docFunc list"
  tMethods :: "docFunc list"

record docPackage =
  pTypes :: "docType list"
  pFuncs :: "docFunc list"
  pConsts :: "docValue list"
  pVars :: "docValue list"

text \<open>The switches of \<^verbatim>\<open>options\<close> that the symbol view reads.\<close>

record options =
  caseSensitive :: bool
  short :: bool
  showSource :: bool

record markdownRenderer =
  opts :: options
  pkg :: docPackage

text \<open>\<^verbatim>\<open>strings.Join(parts, sep)\<close> for any separator.\<close>

fun joinStrings :: "string \<Rightarrow> string list \<Rightarrow> string" where
  "joinStrings sep [] = []"
| "joinStrings sep [p] = p"
| "joinStrings sep (p # q # ps) = p @ sep @ joinStrings sep (q # ps)"

text \<open>
  \<^verbatim>\<open>
  func bulletLine(signature, summary string) string {
      if summary == "" { return fmt.Sprintf("- `%s`", signature) }
      return fmt.Sprintf("- `%s` <em dash> %s", signature, summary)
  }
  \<close>
\<close>

definition bulletLine :: "string \<Rightarrow> string \<Rightarrow> string" where
  "bulletLine signature summ =
     (if summ = [] then ''- `'' @ signature @ ''`''
      else ''- `'' @ signature @ ''` '' @ emDash @ '' '' @ summ)"

text \<open>
  \<^verbatim>\<open>
  func (r *markdownRenderer) writeCodeBlock(w io.Writer, code string) {
      if code == "" { return }
      fmt.Fprintf(w, "```go\n%s\n```\n\n", strings.TrimSpace(code))
  }
  \<close>
  Every function that writes to \<^verbatim>\<open>w\<close> is modelled by the text it appends.
\<close>

definition writeCodeBlock :: "string \<Rightarrow> string" where
  "writeCodeBlock code =
     (if code = [] then []
      else ''```go'' @ [NL] @ TrimSpace code @ [NL] @ ''```'' @ [NL, NL])"

text \<open>
  The lines
  \<^verbatim>\<open>if doc := r.docMarkdown(text); doc != "" { fmt.Fprintln(w, doc); fmt.Fprintln(w) }\<close>
  that end every rendering of a declaration.
\<close>

definition writeDoc :: "string \<Rightarrow> string" where
  "writeDoc text = (let doc = docMarkdown text in if doc \<noteq> [] then doc @ [NL] @ [NL] else [])"

definition valueTitle :: "docValue \<Rightarrow> string" where
  "valueTitle v = joinStrings '', '' (vNames v)"

text \<open>
  \<^verbatim>\<open>
  func (r *markdownRenderer) renderValueDoc(w io.Writer, v *doc.Value) {
      if r.options.short {
          fmt.Fprintf(w, "%s\n", bulletLine(r.valueTitle(v), r.summaryText(v.Doc)))
          return
      }
      fmt.Fprintf(w, "#### %s\n\n", r.valueTitle(v))
      r.writeCodeBlock(w, r.formatNode(v.Decl))
      if doc := r.docMarkdown(v.Doc); doc != "" { ... }
  }
  \<close>
\<close>

definition renderValueDoc :: "markdownRenderer \<Rightarrow> docValue \<Rightarrow> string" where
  "renderValueDoc r v =
     (if short (opts r) then bulletLine (valueTitle v) (summaryText (vDoc v)) @ [NL]
      else ''#### '' @ valueTitle v @ [NL, NL] @ writeCodeBlock (vSource v) @ writeDoc (vDoc v))"

text \<open>
  \<^verbatim>\<open>
  func (r *markdownRenderer) renderFuncDoc(w io.Writer, f *doc.Func, receiver string) {
      if r.options.short {
          fmt.Fprintf(w, "%s\n", bulletLine(r.signature(f.Decl), r.summaryText(f.Doc)))
          return
      }
      name := f.Name
      if receiver != "" { name = receiver + "." + f.Name }
      fmt.Fprintf(w, "#### %s\n\n", name)
      if r.options.showSource {
          r.writeCodeBlock(w, r.formatNode(f.Decl))
      } else {
          fmt.Fprintf(w, "```go\n%s\n```\n\n", r.signature(f.Decl))
      }
      if doc := r.docMarkdown(f.Doc); doc != "" { ... }
  }
  \<close>
\<close>

definition renderFuncDoc :: "markdownRenderer \<Rightarrow> docFunc \<Rightarrow> string \<Rightarrow> string" where
  "renderFuncDoc r f receiver =
     (if short (opts r) then bulletLine (fSignature f) (summaryText (fDoc f)) @ [NL]
      else let name = (if receiver \<noteq> [] then receiver @ ''.'' @ fName f else fName f) in
        ''#### '' @ name @ [NL, NL]
        @ (if showSource (opts r) then writeCodeBlock (fSource f)
           else ''```go'' @ [NL] @ fSignature f @ [NL] @ ''```'' @ [NL, NL])
        @ writeDoc (fDoc f))"

text \<open>
  \<^verbatim>\<open>renderValuesSection\<close> and \<^verbatim>\<open>renderFuncsSection\<close>: nothing for an empty list, else a
  level-3 heading, every element, and an empty line.
\<close>

definition renderValuesSection :: "markdownRenderer \<Rightarrow> string \<Rightarrow> docValue list \<Rightarrow> string" where
  "renderValuesSection r heading values =
     (if length values = 0 then []
      else foldl (\<lambda>w v. w @ renderValueDoc r v) (''### '' @ heading @ [NL, NL]) values @ [NL])"

definition renderFuncsSection ::
    "markdownRenderer \<Rightarrow> string \<Rightarrow> docFunc list \<Rightarrow> string \<Rightarrow> string" where
  "renderFuncsSection r heading funcs receiver =
     (if length funcs = 0 then []
      else foldl (\<lambda>w f. w @ renderFuncDoc r f receiver) (''### '' @ heading @ [NL, NL]) funcs
           @ [NL])"

text \<open>
  \<^verbatim>\<open>
  func (r *markdownRenderer) renderTypeDoc(w io.Writer, t *doc.Type) {
      fmt.Fprintf(w, "## type %s\n\n", t.Name)
      r.writeCodeBlock(w, r.formatNode(t.Decl))
      if doc := r.docMarkdown(t.Doc); doc != "" { ... }
      r.renderValuesSection(w, "Constants", t.Consts)
      r.renderValuesSection(w, "Variables", t.Vars)
      r.renderFuncsSection(w, "Functions returning "+t.Name, t.Funcs, "")
      r.renderFuncsSection(w, "Methods", t.Methods, t.Name)
  }
  \<close>
\<close>

definition renderTypeDoc :: "markdownRenderer \<Rightarrow> docType \<Rightarrow> string" where
  "renderTypeDoc r t =
     ''## type '' @ tName t @ [NL, NL]
     @ writeCodeBlock (tSource t)
     @ writeDoc (tDoc t)
     @ renderValuesSection r ''Constants'' (tConsts t)
     @ renderValuesSection r ''Variables'' (tVars t)
     @ renderFuncsSection r (''Functions returning '' @ tName t) (tFuncs t) []
     @ renderFuncsSection r ''Methods'' (tMethods t) (tName t)"

text \<open>
  \<^verbatim>\<open>
  func (r *markdownRenderer) matchName(name, target string) bool {
      if r.options.caseSensitive { return name == target }
      return strings.EqualFold(name, target)
  }
  func (r *markdownRenderer) valueHasName(v *doc.Value, name string) bool {
      for _, n := range v.Names { if r.matchName(n, name) { return true } }
      return false
  }
  \<close>
  \<^verbatim>\<open>strings.EqualFold\<close> compares under Unicode simple case folding, which needs Unicode's
  tables: it is the parameter \<open>equalFold\<close>.
\<close>

definition matchName ::
    "(string \<Rightarrow> string \<Rightarrow> bool) \<Rightarrow> markdownRenderer \<Rightarrow> string \<Rightarrow> string \<Rightarrow> bool" where
  "matchName equalFold r name target =
     (if caseSensitive (opts r) then name = target else equalFold name target)"

fun namesMatch ::
    "(string \<Rightarrow> string \<Rightarrow> bool) \<Rightarrow> markdownRenderer \<Rightarrow> string list \<Rightarrow> string \<Rightarrow> bool" where
  "namesMatch equalFold r [] name = False"
| "namesMatch equalFold r (n # ns) name =
     (if matchName equalFold r n name then True else namesMatch equalFold r ns name)"

definition valueHasName ::
    "(string \<Rightarrow> string \<Rightarrow> bool) \<Rightarrow> markdownRenderer \<Rightarrow> docValue \<Rightarrow> string \<Rightarrow> bool" where
  "valueHasName equalFold r v name = namesMatch equalFold r (vNames v) name"

text \<open>
  \<^verbatim>\<open>
  func (r *markdownRenderer) renderSymbol(w io.Writer, symbol string) bool {
      var rendered bool
      for _, t := range r.pkg.Types {
          if r.matchName(t.Name, symbol) { r.renderTypeDoc(w, t); rendered = true }
      }
      for _, f := range r.pkg.Funcs {
          if r.matchName(f.Name, symbol) { r.renderFuncDoc(w, f, ""); rendered = true }
      }
      for _, v := range r.pkg.Consts {
          if r.valueHasName(v, symbol) { r.renderValueDoc(w, v); rendered = true }
      }
      for _, v := range r.pkg.Vars {
          if r.valueHasName(v, symbol) { r.renderValueDoc(w, v); rendered = true }
      }
      for _, t := range r.pkg.Types {
          for _, v := range t.Consts {
              if r.valueHasName(v, symbol) { r.renderValueDoc(w, v); rendered = true }
          }
          for _, v := range t.Vars {
              if r.valueHasName(v, symbol) { r.renderValueDoc(w, v); rendered = true }
          }
          for _, f := range t.Funcs {
              if r.matchName(f.Name, symbol) { r.renderFuncDoc(w, f, t.Name); rendered = true }
          }
      }
      return rendered
  }
  \<close>
  The state of the loops is the pair of the text written so far and \<^verbatim>\<open>rendered\<close>. Each loop
  is \<open>renderEach\<close>: for every element that matches, append its rendering and set the
  flag.
\<close>

definition renderEach ::
    "('a \<Rightarrow> bool) \<Rightarrow> ('a \<Rightarrow> string) \<Rightarrow> 'a list \<Rightarrow> string \<times> bool \<Rightarrow> string \<times> bool" where
  "renderEach matches render xs st =
     foldl (\<lambda>st x. if matches x then (fst st @ render x, True) else st) st xs"

definition renderSymbol ::
    "(string \<Rightarrow> string \<Rightarrow> bool) \<Rightarrow> markdownRenderer \<Rightarrow> string \<Rightarrow> string \<times> bool" where
  "renderSymbol equalFold r target =
     (let st = ([], False);
          st = renderEach (\<lambda>t. matchName equalFold r (tName t) target) (renderTypeDoc r)
                 (pTypes (pkg r)) st;
          st = renderEach (\<lambda>f. matchName equalFold r (fName f) target) (\<lambda>f. renderFuncDoc r f [])
                 (pFuncs (pkg r)) st;
          st = renderEach (\<lambda>v. valueHasName equalFold r v target) (renderValueDoc r)
                 (pConsts (pkg r)) st;
          st = renderEach (\<lambda>v. valueHasName equalFold r v target) (renderValueDoc r)
                 (pVars (pkg r)) st;
          st = foldl (\<lambda>st t.
                 let st = renderEach (\<lambda>v. valueHasName equalFold r v target) (renderValueDoc r)
                            (tConsts t) st;
                     st = renderEach (\<lambda>v. valueHasName equalFold r v target) (renderValueDoc r)
                            (tVars t) st;
                     st = renderEach (\<lambda>f. matchName equalFold r (fName f) target)
                            (\<lambda>f. renderFuncDoc r f (tName t)) (tFuncs t) st
                 in st) st (pTypes (pkg r))
      in st)"

text \<open>
  The matches of the symbol view as a list of renderings, in the order of the loops: the
  types, the top-level functions, constants and variables, and for each type its
  constants, variables and functions. \<open>symbolMatchesSpec\<close> is the list in the words of
  the specification, which has the methods of each type as well.
\<close>

definition typeMemberMatches ::
    "(string \<Rightarrow> string \<Rightarrow> bool) \<Rightarrow> markdownRenderer \<Rightarrow> string \<Rightarrow> docType \<Rightarrow> string list" where
  "typeMemberMatches equalFold r target t =
     map (renderValueDoc r) (filter (\<lambda>v. valueHasName equalFold r v target) (tConsts t))
     @ map (renderValueDoc r) (filter (\<lambda>v. valueHasName equalFold r v target) (tVars t))
     @ map (\<lambda>f. renderFuncDoc r f (tName t))
         (filter (\<lambda>f. matchName equalFold r (fName f) target) (tFuncs t))"

definition symbolMatches ::
    "(string \<Rightarrow> string \<Rightarrow> bool) \<Rightarrow> markdownRenderer \<Rightarrow> string \<Rightarrow> string list" where
  "symbolMatches equalFold r target =
     map (renderTypeDoc r) (filter (\<lambda>t. matchName equalFold r (tName t) target) (pTypes (pkg r)))
     @ map (\<lambda>f. renderFuncDoc r f [])
         (filter (\<lambda>f. matchName equalFold r (fName f) target) (pFuncs (pkg r)))
     @ map (renderValueDoc r) (filter (\<lambda>v. valueHasName equalFold r v target) (pConsts (pkg r)))
     @ map (renderValueDoc r) (filter (\<lambda>v. valueHasName equalFold r v target) (pVars (pkg r)))
     @ concat (map (typeMemberMatches equalFold r target) (pTypes (pkg r)))"

definition symbolMatchesSpec ::
    "(string \<Rightarrow> string \<Rightarrow> bool) \<Rightarrow> markdownRenderer \<Rightarrow> string \<Rightarrow> string list" where
  "symbolMatchesSpec equalFold r target =
     map (renderTypeDoc r) (filter (\<lambda>t. matchName equalFold r (tName t) target) (pTypes (pkg r)))
     @ map (\<lambda>f. renderFuncDoc r f [])
         (filter (\<lambda>f. matchName equalFold r (fName f) target) (pFuncs (pkg r)))
     @ map (renderValueDoc r) (filter (\<lambda>v. valueHasName equalFold r v target) (pConsts (pkg r)))
     @ map (renderValueDoc r) (filter (\<lambda>v. valueHasName equalFold r v target) (pVars (pkg r)))
     @ concat (map (\<lambda>t. typeMemberMatches equalFold r target t
                       @ map (\<lambda>f. renderFuncDoc r f (tName t))
                           (filter (\<lambda>f. matchName equalFold r (fName f) target) (tMethods t)))
                 (pTypes (pkg r)))"

text \<open>
  \<^verbatim>\<open>strings.EqualFold\<close> on ASCII strings: equal after mapping \<^verbatim>\<open>A\<close> to \<^verbatim>\<open>Z\<close> to lower case.
  The example package is the type \<^verbatim>\<open>Greeter\<close> of the repository's test data, with its
  constructor \<^verbatim>\<open>NewGreeter\<close> and its method \<^verbatim>\<open>Greet\<close>, rendered with the default options.
\<close>

definition asciiLower :: "char \<Rightarrow> char" where
  "asciiLower c =
     (case map_of (zip ''ABCDEFGHIJKLMNOPQRSTUVWXYZ'' ''abcdefghijklmnopqrstuvwxyz'') c of
        Some l \<Rightarrow> l
      | None \<Rightarrow> c)"

definition asciiEqualFold :: "string \<Rightarrow> string \<Rightarrow> bool" where
  "asciiEqualFold s t = (map asciiLower s = map asciiLower t)"

definition exampleGreeter :: docType where
  "exampleGreeter =
     \<lparr>tName = ''Greeter'', tDoc = ''Greeter greets.'', tSource = ''type Greeter struct{}'',
      tConsts = [], tVars = [],
      tFuncs = [\<lparr>fName = ''NewGreeter'', fDoc = ''NewGreeter makes one.'',
                 fSignature = ''func NewGreeter(name string) *Greeter'',
                 fSource = ''func NewGreeter(name string) *Greeter {}''\<rparr>],
      tMethods = [\<lparr>fName = ''Greet'', fDoc = ''Greet says hi.'',
                   fSignature = ''func (g *Greeter) Greet() string'',
                   fSource = ''func (g *Greeter) Greet() string {}''\<rparr>]\<rparr>"

definition exampleRenderer :: markdownRenderer where
  "exampleRenderer =
     \<lparr>opts = \<lparr>caseSensitive = False, short = False, showSource = False\<rparr>,
      pkg = \<lparr>pTypes = [exampleGreeter], pFuncs = [], pConsts = [], pVars = []\<rparr>\<rparr>"

section \<open>Facts about splitting and joining\<close>

lemma splitOn_not_Nil: "splitOn sep s \<noteq> []"
  by (cases s) simp_all

lemma joinWith_Cons:
  "ps \<noteq> [] \<Longrightarrow> joinWith sep (p # ps) = p @ sep # joinWith sep ps"
  by (cases ps) simp_all

lemma joinWith_splitOn: "joinWith sep (splitOn sep s) = s"
proof (induction s)
  case Nil
  show ?case by simp
next
  case (Cons c cs)
  obtain l ls where sp: "splitOn sep cs = l # ls"
    using splitOn_not_Nil [of sep cs] by (cases "splitOn sep cs") auto
  show ?case
  proof (cases "c = sep")
    case True
    with Cons show ?thesis
      by (simp add: joinWith_Cons splitOn_not_Nil)
  next
    case False
    with Cons sp show ?thesis
      by (cases ls) simp_all
  qed
qed

lemma hd_splitOn: "hd (splitOn sep s) = takeWhile (\<lambda>c. c \<noteq> sep) s"
  by (induction s) simp_all

lemma tl_splitOn_no_sep: "sep \<notin> set s \<Longrightarrow> splitOn sep s = [s]"
proof (induction s)
  case Nil
  show ?case by simp
next
  case (Cons c cs)
  then show ?case by auto
qed

lemma splitOn_first_sep:
  "sep \<notin> set p \<Longrightarrow> splitOn sep (p @ sep # r) = p # splitOn sep r"
  by (induction p) auto

lemma splitOn_lines_no_sep: "l \<in> set (splitOn sep s) \<Longrightarrow> sep \<notin> set l"
proof (induction s arbitrary: l)
  case Nil
  then show ?case by simp
next
  case (Cons c cs)
  obtain k ks where sp: "splitOn sep cs = k # ks"
    using splitOn_not_Nil [of sep cs] by (cases "splitOn sep cs") auto
  show ?case
  proof (cases "c = sep")
    case True
    with Cons show ?thesis by auto
  next
    case False
    with Cons.prems sp have "l = c # k \<or> l \<in> set ks" by auto
    then show ?thesis
    proof
      assume "l = c # k"
      moreover have "sep \<notin> set k" using Cons.IH [of k] sp by simp
      ultimately show ?thesis using False by auto
    next
      assume "l \<in> set ks"
      then show ?thesis using Cons.IH [of l] sp by simp
    qed
  qed
qed

lemma splitSymbol_eq:
  "splitSymbol spec =
     (takeWhile (\<lambda>c. c \<noteq> CHR ''.'') spec, drop 1 (dropWhile (\<lambda>c. c \<noteq> CHR ''.'') spec))"
proof (cases "CHR ''.'' \<in> set spec")
  case False
  then have sp: "splitOn (CHR ''.'') spec = [spec]" by (rule tl_splitOn_no_sep)
  from False have tw: "takeWhile (\<lambda>c. c \<noteq> CHR ''.'') spec = spec"
    by (auto simp: takeWhile_eq_all_conv)
  from False have dw: "dropWhile (\<lambda>c. c \<noteq> CHR ''.'') spec = []"
    by (auto simp: dropWhile_eq_Nil_conv)
  show ?thesis by (simp add: splitSymbol_def sp tw dw)
next
  case True
  define p where "p = takeWhile (\<lambda>c. c \<noteq> CHR ''.'') spec"
  define d where "d = dropWhile (\<lambda>c. c \<noteq> CHR ''.'') spec"
  have pd: "spec = p @ d" by (simp add: p_def d_def)
  from True have "d \<noteq> []" by (auto simp: d_def dropWhile_eq_Nil_conv)
  moreover have "d \<noteq> [] \<Longrightarrow> hd d = CHR ''.''"
    using hd_dropWhile [of "\<lambda>c. c \<noteq> CHR ''.''" spec] by (simp add: d_def)
  ultimately obtain r where d: "d = CHR ''.'' # r" by (cases d) auto
  have np: "CHR ''.'' \<notin> set p"
    using set_takeWhileD [of "CHR ''.''" "\<lambda>c. c \<noteq> CHR ''.''" spec] by (auto simp: p_def)
  have sp: "splitOn (CHR ''.'') spec = p # splitOn (CHR ''.'') r"
    using splitOn_first_sep [OF np] pd d by simp
  have ne: "spec \<noteq> []" using True by auto
  have "splitSymbol spec = (p, joinWith (CHR ''.'') (splitOn (CHR ''.'') r))"
    using sp ne splitOn_not_Nil [of "CHR ''.''" r] by (simp add: splitSymbol_def)
  then show ?thesis
    using d by (simp add: joinWith_splitOn p_def [symmetric] d_def [symmetric])
qed

section \<open>Claims\<close>

text \<open>
  C8 (as amended). \<^const>\<open>splitSymbol\<close> cuts its input at the first dot: the symbol part is
  the input up to the first dot and never contains a dot; when the input contains a dot,
  symbol, one dot and method put together give the input back; when it contains none, the
  symbol is the whole input and the method is empty. An empty method does not tell that
  the input had no dot: a trailing dot gives an empty method as well.
\<close>

theorem splitSymbol_first_dot:
  "CHR ''.'' \<notin> set (fst (splitSymbol spec)) \<and>
   (CHR ''.'' \<in> set spec \<longrightarrow>
      fst (splitSymbol spec) @ ''.'' @ snd (splitSymbol spec) = spec) \<and>
   (CHR ''.'' \<notin> set spec \<longrightarrow> splitSymbol spec = (spec, []))"
proof (intro conjI impI)
  show "CHR ''.'' \<notin> set (fst (splitSymbol spec))"
    using set_takeWhileD [of "CHR ''.''" "\<lambda>c. c \<noteq> CHR ''.''" spec]
    by (auto simp: splitSymbol_eq)
next
  assume dot: "CHR ''.'' \<in> set spec"
  define d where "d = dropWhile (\<lambda>c. c \<noteq> CHR ''.'') spec"
  from dot have "d \<noteq> []" by (auto simp: d_def)
  moreover have "d \<noteq> [] \<Longrightarrow> hd d = CHR ''.''"
    using hd_dropWhile [of "\<lambda>c. c \<noteq> CHR ''.''" spec] by (simp add: d_def)
  ultimately obtain r where d: "d = CHR ''.'' # r" by (cases d) auto
  have "takeWhile (\<lambda>c. c \<noteq> CHR ''.'') spec @ d = spec" by (simp add: d_def)
  then show "fst (splitSymbol spec) @ ''.'' @ snd (splitSymbol spec) = spec"
    using d by (simp add: splitSymbol_eq d_def [symmetric])
next
  assume "CHR ''.'' \<notin> set spec"
  then have "splitOn (CHR ''.'') spec = [spec]" by (rule tl_splitOn_no_sep)
  then show "splitSymbol spec = (spec, [])" by (simp add: splitSymbol_def)
qed

theorem splitSymbol_first_dot_witness:
  "splitSymbol ''pkg.Type.Method'' = (''pkg'', ''Type.Method'') \<and>
   splitSymbol ''Greeter'' = (''Greeter'', '''')"
  using splitSymbol_first_dot [of "''pkg.Type.Method''"] splitSymbol_first_dot [of "''Greeter''"]
  by (simp add: splitSymbol_def)

text \<open>
  C8 as stated fails on a trailing dot: \<^verbatim>\<open>splitSymbol("a.")\<close> has an empty method part, yet
  the symbol part is not the whole input and the input contains a dot.
\<close>

theorem splitSymbol_trailing_dot_counterexample:
  "snd (splitSymbol ''a.'') = [] \<and> fst (splitSymbol ''a.'') \<noteq> ''a.'' \<and>
   CHR ''.'' \<in> set ''a.''"
  by (simp add: splitSymbol_def)

section \<open>Facts about the candidate resolver\<close>

lemma add_pkgExpr_nonempty:
  "\<forall>c\<in>set (snd st). pkgExpr c \<noteq> [] \<Longrightarrow> \<forall>c\<in>set (snd (add p s m st)). pkgExpr c \<noteq> []"
  by (auto simp: add_def Let_def)

lemma addAll_pkgExpr_nonempty:
  "\<forall>c\<in>set (snd st). pkgExpr c \<noteq> [] \<Longrightarrow> \<forall>c\<in>set (snd (addAll cands st)). pkgExpr c \<noteq> []"
proof (induction cands arbitrary: st)
  case Nil
  then show ?case by (simp add: addAll_def)
next
  case (Cons cand cands)
  have "\<forall>c\<in>set (snd (add (pkgExpr cand) (symbol cand) (method cand) st)). pkgExpr c \<noteq> []"
    using Cons.prems by (rule add_pkgExpr_nonempty)
  then have "\<forall>c\<in>set (snd (addAll cands (add (pkgExpr cand) (symbol cand) (method cand) st))).
      pkgExpr c \<noteq> []"
    by (rule Cons.IH)
  then show ?case by (simp add: addAll_def)
qed

lemma singleArgCandidates_pkgExpr_nonempty:
  "\<forall>c\<in>set (singleArgCandidates upperMB arg). pkgExpr c \<noteq> []"
proof -
  let ?s = "fst (splitSymbol arg)" and ?m = "snd (splitSymbol arg)"
  define st1 where "st1 =
    (if startsWithUpper upperMB arg \<and> \<not> (CHR ''/'' \<in> set arg \<or> CHR 0x5C \<in> set arg)
     then add ''.'' ?s ?m ({}, []) else ({}, []))"
  define st2 where "st2 = add arg [] [] st1"
  define st3 where "st3 = (if CHR ''.'' \<in> set arg then addAll (parseCompound arg) st2 else st2)"
  have 0: "\<forall>c\<in>set (snd ({} :: string set, [] :: invocation list)). pkgExpr c \<noteq> []" by simp
  have 1: "\<forall>c\<in>set (snd st1). pkgExpr c \<noteq> []"
    unfolding st1_def using 0 add_pkgExpr_nonempty [OF 0] by (simp del: snd_conv)
  have 2: "\<forall>c\<in>set (snd st2). pkgExpr c \<noteq> []"
    unfolding st2_def using 1 by (rule add_pkgExpr_nonempty)
  have 3: "\<forall>c\<in>set (snd st3). pkgExpr c \<noteq> []"
    unfolding st3_def using 2 addAll_pkgExpr_nonempty [OF 2] by simp
  have "\<forall>c\<in>set (snd (add ''.'' ?s ?m st3)). pkgExpr c \<noteq> []"
    using 3 by (rule add_pkgExpr_nonempty)
  moreover have "singleArgCandidates upperMB arg = snd (add ''.'' ?s ?m st3)"
    by (simp add: singleArgCandidates_def st3_def st2_def st1_def Let_def)
  ultimately show ?thesis by simp
qed

lemma add_dedup:
  "add p s m (seen, cands) =
     (if candKey \<lparr>pkgExpr = p, symbol = s, method = m\<rparr> \<in> seen then (seen, cands)
      else (insert (candKey \<lparr>pkgExpr = p, symbol = s, method = m\<rparr>) seen,
            cands @ [normPkg \<lparr>pkgExpr = p, symbol = s, method = m\<rparr>]))"
  by (simp add: add_def candKey_def normPkg_def Let_def)

lemma addAll_dedupKeys:
  "addAll ts (seen, cands) =
     (seen \<union> candKey ` set ts, cands @ map normPkg (dedupKeys seen ts))"
proof (induction ts arbitrary: seen cands)
  case Nil
  then show ?case by (simp add: addAll_def)
next
  case (Cons t ts)
  have t: "\<lparr>pkgExpr = pkgExpr t, symbol = symbol t, method = method t\<rparr> = t" by simp
  have step: "addAll (t # ts) (seen, cands) =
      addAll ts (add (pkgExpr t) (symbol t) (method t) (seen, cands))"
    by (simp add: addAll_def)
  show ?case
  proof (cases "candKey t \<in> seen")
    case True
    then have "add (pkgExpr t) (symbol t) (method t) (seen, cands) = (seen, cands)"
      by (simp add: add_dedup t)
    with True show ?thesis by (auto simp: step Cons.IH)
  next
    case False
    then have "add (pkgExpr t) (symbol t) (method t) (seen, cands) =
        (insert (candKey t) seen, cands @ [normPkg t])"
      by (simp add: add_dedup t)
    with False show ?thesis by (auto simp: step Cons.IH)
  qed
qed

lemma add_as_addAll:
  "add p s m st = addAll [\<lparr>pkgExpr = p, symbol = s, method = m\<rparr>] st"
  by (simp add: addAll_def)

lemma addAll_append: "addAll (xs @ ys) st = addAll ys (addAll xs st)"
  by (simp add: addAll_def)

lemma addAll_Nil: "addAll [] st = st"
  by (simp add: addAll_def)

lemma singleArgCandidates_addAll:
  "singleArgCandidates upperMB arg = snd (addAll (rawCandidates upperMB arg) ({}, []))"
  by (simp add: singleArgCandidates_def rawCandidates_def Let_def addAll_def)

lemma singleArgCandidates_dedupKeys:
  "singleArgCandidates upperMB arg = map normPkg (dedupKeys {} (rawCandidates upperMB arg))"
  by (simp add: singleArgCandidates_addAll addAll_dedupKeys)

lemmas candidate_eval =
  singleArgCandidates_def startsWithUpper_def add_def addAll_def parseCompound_def
  parseCompoundFrom.simps splitSymbol_def candidatesSpec_def noUpperMB_def

section \<open>Claims about the candidate resolver\<close>

text \<open>
  C10 (as amended). For zero arguments the one candidate has the package expression
  \<^verbatim>\<open>"."\<close>. For one argument the candidates are the triples passed to \<^verbatim>\<open>add\<close>, first of each
  key, each with an empty package expression replaced by \<^verbatim>\<open>"."\<close> and nothing else changed
  (\<^const>\<open>normPkg\<close>). For two arguments the one candidate has the first argument as its
  package expression, as it is. So every candidate has a non-empty package expression,
  provided that, when there are two arguments, the first one is not empty.
\<close>

theorem buildCandidates_package_expression:
  assumes "buildCandidates upperMB args = Inr cs"
  shows "((length args = 2 \<longrightarrow> args ! 0 \<noteq> []) \<longrightarrow> (\<forall>c\<in>set cs. pkgExpr c \<noteq> [])) \<and>
         (args = [] \<longrightarrow> cs = [\<lparr>pkgExpr = ''.'', symbol = [], method = []\<rparr>]) \<and>
         (\<forall>arg. args = [arg] \<longrightarrow>
            cs = map normPkg (dedupKeys {} (rawCandidates upperMB arg))) \<and>
         (\<forall>a b. args = [a, b] \<longrightarrow>
            cs = [\<lparr>pkgExpr = a, symbol = fst (splitSymbol b), method = snd (splitSymbol b)\<rparr>])"
proof (cases "(upperMB, args)" rule: buildCandidates.cases)
  case (1 u)
  with assms show ?thesis by auto
next
  case (2 u a)
  with assms have cs: "cs = singleArgCandidates upperMB a" by simp
  have "\<forall>c\<in>set cs. pkgExpr c \<noteq> []"
    unfolding cs by (rule singleArgCandidates_pkgExpr_nonempty)
  moreover have "cs = map normPkg (dedupKeys {} (rawCandidates upperMB a))"
    unfolding cs by (rule singleArgCandidates_dedupKeys)
  ultimately show ?thesis using 2 by simp
next
  case (3 u a b)
  with assms show ?thesis by auto
next
  case (4 u a b c rest)
  with assms show ?thesis by simp
qed

theorem buildCandidates_package_expression_witness:
  "buildCandidates noUpperMB [''''] =
     Inr [\<lparr>pkgExpr = ''.'', symbol = [], method = []\<rparr>,
          \<lparr>pkgExpr = ''.'', symbol = [], method = []\<rparr>] \<and>
   [\<lparr>pkgExpr = ''.'', symbol = [], method = []\<rparr>, \<lparr>pkgExpr = ''.'', symbol = [], method = []\<rparr>] =
     map normPkg (dedupKeys {} (rawCandidates noUpperMB '''')) \<and>
   pkgExpr \<lparr>pkgExpr = ''.'', symbol = [], method = []\<rparr> \<noteq> []"
proof -
  have e: "buildCandidates noUpperMB [''''] =
     Inr [\<lparr>pkgExpr = ''.'', symbol = [], method = []\<rparr>,
          \<lparr>pkgExpr = ''.'', symbol = [], method = []\<rparr>]"
    by (simp add: candidate_eval)
  show ?thesis using e buildCandidates_package_expression [OF e] by simp
qed

text \<open>
  C10 as stated fails for two positional arguments: the first argument is taken as the
  package expression without the replacement, so an empty first argument stays empty.
\<close>

theorem buildCandidates_two_args_counterexample:
  "buildCandidates noUpperMB ['''', ''Foo''] =
     Inr [\<lparr>pkgExpr = [], symbol = ''Foo'', method = []\<rparr>]"
  by (simp add: splitSymbol_def)

text \<open>
  C3. The candidate list is the four groups in order, deduplicated on the exact triple.
  The code deduplicates on the string \<^verbatim>\<open>pkgExpr + "|" + symbol + "|" + method\<close> instead, and
  two different triples can give the same string. For the argument \<^verbatim>\<open>.|\<close> the
  package candidate \<^verbatim>\<open>(".|", "", "")\<close> and the local candidate \<^verbatim>\<open>(".", "", "|")\<close> both have the
  key \<^verbatim>\<open>.|||\<close>: the code drops the second, the list of the claim keeps both.
\<close>

theorem singleArgCandidates_key_collision:
  "singleArgCandidates noUpperMB ''.|'' = [\<lparr>pkgExpr = ''.|'', symbol = [], method = []\<rparr>] \<and>
   candidatesSpec noUpperMB ''.|'' =
     [\<lparr>pkgExpr = ''.|'', symbol = [], method = []\<rparr>,
      \<lparr>pkgExpr = ''.'', symbol = [], method = ''|''\<rparr>]"
  by (simp add: candidate_eval)

section \<open>Claims about the package resolver\<close>

lemma loadPackage_error_kind:
  "loadPackage load pattern = Inl e \<Longrightarrow>
     (\<exists>m. e = LoadError m) \<or> (\<exists>p. e = NoPackagesMatched p) \<or> (\<exists>m. e = PackageError m)"
  by (auto simp: loadPackage_def Let_def split: sum.splits if_splits)

text \<open>
  C2 (as amended). When the load of the expression as it is written fails (the empty
  expression is loaded as \<^verbatim>\<open>"."\<close>) and the suffix search finds nothing,
  \<^const>\<open>resolvePackage\<close> returns the error \<^verbatim>\<open>could not resolve package path for "<expr>"\<close>; the
  error of the failed load is dropped and is never the one returned.
\<close>

theorem resolvePackage_load_failure:
  assumes "loadPackage load (if expr = [] then ''.'' else expr) = Inl e"
    and "matchStdSuffix (loadStdPackages stdLoad) expr = []"
  shows "resolvePackage load stdLoad expr = Inl (CouldNotResolve expr) \<and>
         resolvePackage load stdLoad expr \<noteq> Inl e"
proof -
  have "resolveTry load (if expr = [] then [''.''] else [expr]) = None"
    using assms(1) by (auto split: if_splits)
  then have r: "resolvePackage load stdLoad expr = Inl (CouldNotResolve expr)"
    using assms(2) by (simp add: resolvePackage_def)
  have "e \<noteq> CouldNotResolve expr"
    using loadPackage_error_kind [OF assms(1)] by auto
  with r show ?thesis by simp
qed

theorem resolvePackage_load_failure_witness:
  "resolvePackage failingLoad (Inr []) ''nosuchpkg'' = Inl (CouldNotResolve ''nosuchpkg'')"
proof -
  have a: "loadPackage failingLoad (if ''nosuchpkg'' = [] then ''.'' else ''nosuchpkg'') =
      Inl (LoadError ''malformed import path'')"
    by (simp add: loadPackage_def failingLoad_def)
  have b: "matchStdSuffix (loadStdPackages (Inr [])) ''nosuchpkg'' = []"
    by (simp add: matchStdSuffix_def loadStdPackages_def)
  show ?thesis using resolvePackage_load_failure [OF a b] by simp
qed

text \<open>
  C2 as stated fails: the load error is \<^verbatim>\<open>malformed import path\<close>, the suffix search is
  empty, and the error returned is not the load error.
\<close>

theorem resolvePackage_drops_load_error_counterexample:
  "loadPackage failingLoad ''nosuchpkg'' = Inl (LoadError ''malformed import path'') \<and>
   matchStdSuffix (loadStdPackages (Inr [])) ''nosuchpkg'' = [] \<and>
   resolvePackage failingLoad (Inr []) ''nosuchpkg'' \<noteq> Inl (LoadError ''malformed import path'')"
  by (simp add: resolvePackage_def loadPackage_def failingLoad_def matchStdSuffix_def
      loadStdPackages_def)

section \<open>Claims about the table of contents\<close>

text \<open>
  C6. Each bullet of the table of contents links the entry and, when there is a summary,
  continues with an em dash (U+2014) between spaces and the summary. \<^const>\<open>buildTOC\<close>
  writes the eight bytes of \<^const>\<open>tocDash\<close> there (the em dash read as Windows-1252 and
  encoded again), not the three bytes of the em dash that \<^verbatim>\<open>bulletLine\<close> writes.
\<close>

theorem buildTOC_separator_bytes:
  "buildTOC [\<lparr>title = ''subpkg'', link = ''subpkg/README.md'', summary = ''Sub docs.''\<rparr>] =
     ''## Packages'' @ [NL, NL] @ ''- [subpkg](subpkg/README.md) ''
       @ [CHR 0xC3, CHR 0xA2, CHR 0xE2, CHR 0x82, CHR 0xAC, CHR 0xE2, CHR 0x80, CHR 0x9D]
       @ '' Sub docs.'' @ [NL, NL] \<and>
   buildTOCSpec [\<lparr>title = ''subpkg'', link = ''subpkg/README.md'', summary = ''Sub docs.''\<rparr>] =
     ''## Packages'' @ [NL, NL] @ ''- [subpkg](subpkg/README.md) ''
       @ [CHR 0xE2, CHR 0x80, CHR 0x94]
       @ '' Sub docs.'' @ [NL, NL]"
  by (simp add: buildTOC_def buildTOCSpec_def tocLine_def tocDash_def emDash_def)

lemma hasSuffix_append: "hasSuffix (s @ suf) suf"
  by (simp add: hasSuffix_def)

lemma hasSuffix_NL_NL_shorter:
  "hasSuffix s [NL, NL] \<Longrightarrow> hasSuffix s [NL]"
proof -
  assume h: "hasSuffix s [NL, NL]"
  then have "s = take (length s - 2) s @ [NL, NL]"
    by (metis append_take_drop_id hasSuffix_def length_Cons list.size(3) numeral_2_eq_2)
  then obtain p where "s = (p @ [NL]) @ [NL]" by (metis append_Cons append_Nil append_assoc)
  then show ?thesis using hasSuffix_append [of "p @ [NL]" "[NL]"] by simp
qed

lemma hasSuffix_NL_snoc:
  "hasSuffix s [NL] \<Longrightarrow> hasSuffix (s @ [NL]) [NL, NL]"
proof -
  assume "hasSuffix s [NL]"
  then have "s = take (length s - 1) s @ [NL]"
    by (metis append_take_drop_id hasSuffix_def length_Cons list.size(3) One_nat_def)
  then obtain p where "s = p @ [NL]" ..
  then show ?thesis using hasSuffix_append [of p "[NL, NL]"] by simp
qed

text \<open>
  C7 (as amended). With an empty table of contents the root content is returned as it
  is, and with an empty root content the table alone. Otherwise the result is the root
  content, then the fewest newlines (none, one or two) after which the content ends with
  two newlines, that is with at least one blank line, then the table of contents. Blank
  lines that the root content already ends with are all kept.
\<close>

theorem appendTOCAfterDoc_blank_line:
  "(toc = [] \<longrightarrow> appendTOCAfterDoc doc toc = doc) \<and>
   (doc = [] \<longrightarrow> appendTOCAfterDoc doc toc = toc) \<and>
   (doc \<noteq> [] \<and> toc \<noteq> [] \<longrightarrow>
      (\<exists>n. n \<le> 2 \<and> appendTOCAfterDoc doc toc = doc @ replicate n NL @ toc \<and>
           hasSuffix (doc @ replicate n NL) [NL, NL] \<and>
           (\<forall>k. k < n \<longrightarrow> \<not> hasSuffix (doc @ replicate k NL) [NL, NL])))"
proof (intro conjI impI)
  show "appendTOCAfterDoc doc toc = doc" if "toc = []"
    using that by (simp add: appendTOCAfterDoc_def)
  show "appendTOCAfterDoc doc toc = toc" if "doc = []"
    using that by (simp add: appendTOCAfterDoc_def)
  assume ne: "doc \<noteq> [] \<and> toc \<noteq> []"
  consider (two) "hasSuffix doc [NL, NL]"
    | (one) "\<not> hasSuffix doc [NL, NL]" "hasSuffix doc [NL]"
    | (none) "\<not> hasSuffix doc [NL]"
    by blast
  then show "\<exists>n. n \<le> 2 \<and> appendTOCAfterDoc doc toc = doc @ replicate n NL @ toc \<and>
      hasSuffix (doc @ replicate n NL) [NL, NL] \<and>
      (\<forall>k. k < n \<longrightarrow> \<not> hasSuffix (doc @ replicate k NL) [NL, NL])"
  proof cases
    case two
    with ne have "appendTOCAfterDoc doc toc = doc @ replicate 0 NL @ toc"
      by (simp add: appendTOCAfterDoc_def)
    with two show ?thesis by (intro exI [of _ 0]) simp
  next
    case one
    with ne have "appendTOCAfterDoc doc toc = doc @ replicate 1 NL @ toc"
      by (simp add: appendTOCAfterDoc_def)
    moreover have "hasSuffix (doc @ replicate 1 NL) [NL, NL]"
      using hasSuffix_NL_snoc [OF one(2)] by simp
    ultimately show ?thesis using one(1) by (intro exI [of _ 1]) simp
  next
    case none
    then have n2: "\<not> hasSuffix doc [NL, NL]" using hasSuffix_NL_NL_shorter by blast
    with none ne have "appendTOCAfterDoc doc toc = doc @ replicate 2 NL @ toc"
      by (simp add: appendTOCAfterDoc_def numeral_2_eq_2)
    moreover have "hasSuffix (doc @ replicate 2 NL) [NL, NL]"
      using hasSuffix_append [of doc "[NL, NL]"] by (simp add: numeral_2_eq_2)
    moreover have "\<not> hasSuffix (doc @ replicate k NL) [NL, NL]" if "k < 2" for k
    proof -
      from that consider "k = 0" | "k = 1" by linarith
      then show ?thesis
      proof cases
        case 1
        with n2 show ?thesis by simp
      next
        case 2
        have "\<not> hasSuffix (doc @ [NL]) [NL, NL]"
        proof
          assume "hasSuffix (doc @ [NL]) [NL, NL]"
          then have "drop (length doc - 1) (doc @ [NL]) = [NL, NL]" and "1 \<le> length doc"
            by (auto simp: hasSuffix_def)
          then have "drop (length doc - 1) doc @ [NL] = [NL] @ [NL]" by simp
          then have "drop (length doc - 1) doc = [NL]" by (simp only: append_same_eq)
          with \<open>1 \<le> length doc\<close> have "hasSuffix doc [NL]" by (simp add: hasSuffix_def)
          with none show False by simp
        qed
        with 2 show ?thesis by simp
      qed
    qed
    ultimately show ?thesis by (intro exI [of _ 2]) simp
  qed
qed

theorem appendTOCAfterDoc_blank_line_witness:
  "appendTOCAfterDoc (''# package example'' @ [NL]) ''## Packages'' =
     ''# package example'' @ [NL, NL] @ ''## Packages'' \<and>
   appendTOCAfterDoc ''# package example'' [] = ''# package example'' \<and>
   appendTOCAfterDoc [] ''## Packages'' = ''## Packages''"
  using appendTOCAfterDoc_blank_line [of "''## Packages''" "''# package example'' @ [NL]"]
    appendTOCAfterDoc_blank_line [of "[]" "''# package example''"]
    appendTOCAfterDoc_blank_line [of "''## Packages''" "[]"]
  by (simp add: appendTOCAfterDoc_def hasSuffix_def)

text \<open>
  C7 as stated fails on a root content that already ends with two blank lines: it is
  left as it is, so what precedes the table of contents does not end with exactly one
  blank line.
\<close>

theorem appendTOCAfterDoc_two_blank_lines_counterexample:
  "appendTOCAfterDoc (''a'' @ [NL, NL, NL]) ''## Packages'' =
     (''a'' @ [NL, NL, NL]) @ ''## Packages'' \<and>
   \<not> endsWithOneBlankLine (''a'' @ [NL, NL, NL])"
  by (simp add: appendTOCAfterDoc_def hasSuffix_def endsWithOneBlankLine_def)

section \<open>Facts about the dedent algorithm\<close>

lemma spaceWidth_space: "spaceWidth (CHR '' '' # l) = 1"
  by (simp add: spaceWidth_def spaceRunes_def hasPrefix_def)

lemma spaceWidth_tab: "spaceWidth (CHR 0x09 # l) = 1"
  by (simp add: spaceWidth_def spaceRunes_def hasPrefix_def)

lemma spaceWidth_lead:
  "c = CHR '' '' \<or> c = CHR 0x09 \<Longrightarrow> spaceWidth (c # l) = 1"
  using spaceWidth_space spaceWidth_tab by blast

lemma TrimSpace_lead:
  "c = CHR '' '' \<or> c = CHR 0x09 \<Longrightarrow> TrimSpace (c # l) = TrimSpace l"
  using spaceWidth_lead [of c l] by (simp add: TrimSpace_def trimLeft.simps [of "c # l"])

lemma leadingWhitespace_le_length: "leadingWhitespace l \<le> length l"
  by (induction l) auto

lemma TrimSpace_drop_leading:
  "n \<le> leadingWhitespace l \<Longrightarrow> TrimSpace (drop n l) = TrimSpace l"
proof (induction l arbitrary: n)
  case Nil
  then show ?case by simp
next
  case (Cons c l)
  show ?case
  proof (cases n)
    case 0
    then show ?thesis by simp
  next
    case (Suc k)
    with Cons.prems have c: "c = CHR '' '' \<or> c = CHR 0x09" and k: "k \<le> leadingWhitespace l"
      by (auto split: if_splits)
    have "TrimSpace (drop n (c # l)) = TrimSpace (drop k l)" using Suc by simp
    also have "\<dots> = TrimSpace l" using k by (rule Cons.IH)
    also have "\<dots> = TrimSpace (c # l)" using TrimSpace_lead [OF c] by simp
    finally show ?thesis .
  qed
qed

lemma leadingWhitespace_drop:
  "n \<le> leadingWhitespace l \<Longrightarrow> leadingWhitespace (drop n l) = leadingWhitespace l - n"
proof (induction l arbitrary: n)
  case Nil
  then show ?case by simp
next
  case (Cons c l)
  then show ?case by (cases n) (auto split: if_splits)
qed

lemma minIndentStep_nonneg:
  "0 \<le> m \<Longrightarrow> minIndentStep m l =
     (if TrimSpace l = [] then m else min m (int (leadingWhitespace l)))"
  by (auto simp: minIndentStep_def Let_def)

lemma foldl_minIndentStep_nonneg:
  "0 \<le> m \<Longrightarrow> foldl minIndentStep m ls =
     Min (insert m ((\<lambda>l. int (leadingWhitespace l)) ` set (filter (\<lambda>l. TrimSpace l \<noteq> []) ls)))"
proof (induction ls arbitrary: m)
  case Nil
  then show ?case by simp
next
  case (Cons l ls)
  let ?S = "(\<lambda>l. int (leadingWhitespace l)) ` set (filter (\<lambda>l. TrimSpace l \<noteq> []) ls)"
  have fin: "finite ?S" by simp
  show ?case
  proof (cases "TrimSpace l = []")
    case True
    then show ?thesis using Cons by (simp add: minIndentStep_nonneg)
  next
    case False
    have "0 \<le> min m (int (leadingWhitespace l))" using Cons.prems by simp
    then have "foldl minIndentStep (min m (int (leadingWhitespace l))) ls =
        Min (insert (min m (int (leadingWhitespace l))) ?S)"
      by (rule Cons.IH)
    also have "\<dots> = Min (insert m (insert (int (leadingWhitespace l)) ?S))"
    proof (cases "?S = {}")
      case True
      then show ?thesis by (simp add: min.commute)
    next
      case False
      then show ?thesis using fin by (simp add: min.assoc)
    qed
    finally show ?thesis using False Cons.prems by (simp add: minIndentStep_nonneg)
  qed
qed

lemma splitOn_joinWith:
  "ls \<noteq> [] \<Longrightarrow> \<forall>l\<in>set ls. sep \<notin> set l \<Longrightarrow> splitOn sep (joinWith sep ls) = ls"
proof (induction ls rule: joinWith.induct)
  case (1 sep)
  then show ?case by simp
next
  case (2 sep p)
  then show ?case by (simp add: tl_splitOn_no_sep)
next
  case (3 sep p q ps)
  then show ?case by (simp add: splitOn_first_sep)
qed

lemma foldl_minIndentStep_start:
  "foldl minIndentStep (- 1) ls =
     (if filter (\<lambda>l. TrimSpace l \<noteq> []) ls = [] then - 1
      else Min ((\<lambda>l. int (leadingWhitespace l)) ` set (filter (\<lambda>l. TrimSpace l \<noteq> []) ls)))"
proof (induction ls)
  case Nil
  then show ?case by simp
next
  case (Cons l ls)
  show ?case
  proof (cases "TrimSpace l = []")
    case True
    then show ?thesis using Cons by (simp add: minIndentStep_def)
  next
    case False
    then have "minIndentStep (- 1) l = int (leadingWhitespace l)"
      by (simp add: minIndentStep_def)
    then have "foldl minIndentStep (- 1) (l # ls) = foldl minIndentStep (int (leadingWhitespace l)) ls"
      by simp
    also have "\<dots> = Min (insert (int (leadingWhitespace l))
        ((\<lambda>l. int (leadingWhitespace l)) ` set (filter (\<lambda>l. TrimSpace l \<noteq> []) ls)))"
      by (rule foldl_minIndentStep_nonneg) simp
    finally show ?thesis using False by simp
  qed
qed


lemma minLeading_fold:
  "foldl minIndentStep (- 1) (splitOn NL src) =
     (if nonBlankLines src = [] then - 1 else int (minLeading src))"
proof (cases "nonBlankLines src = []")
  case True
  then show ?thesis by (simp add: foldl_minIndentStep_start nonBlankLines_def)
next
  case False
  have "Min ((\<lambda>l. int (leadingWhitespace l)) ` set (nonBlankLines src)) =
      Min (int ` (leadingWhitespace ` set (nonBlankLines src)))"
    by (simp add: image_image)
  also have "\<dots> = int (Min (leadingWhitespace ` set (nonBlankLines src)))"
    using False by (intro mono_Min_commute [symmetric]) (auto simp: mono_def)
  finally show ?thesis
    using False by (simp add: foldl_minIndentStep_start nonBlankLines_def minLeading_def)
qed

lemma stripLine_0: "stripLine 0 = (\<lambda>l. l)"
  by (simp add: stripLine_def fun_eq_iff)

lemma dedentMarkdown_cases:
  "dedentMarkdown src =
     (if minLeading src = 0 then src
      else joinWith NL (map (stripLine (minLeading src)) (splitOn NL src)))"
proof (cases "nonBlankLines src = []")
  case True
  then have "foldl minIndentStep (- 1) (splitOn NL src) = - 1"
    by (simp add: minLeading_fold)
  then have "dedentMarkdown src = src"
    unfolding dedentMarkdown_def Let_def by simp
  then show ?thesis using True by (simp add: minLeading_def)
next
  case False
  then have f: "foldl minIndentStep (- 1) (splitOn NL src) = int (minLeading src)"
    by (simp add: minLeading_fold)
  have lam: "(\<lambda>line. if int (minLeading src) \<le> int (length line)
                     then drop (nat (int (minLeading src))) line else line) =
      stripLine (minLeading src)"
    by (simp add: stripLine_def fun_eq_iff)
  have "dedentMarkdown src =
      (if int (minLeading src) \<le> 0 then src
       else joinWith NL (map (\<lambda>line. if int (minLeading src) \<le> int (length line)
                     then drop (nat (int (minLeading src))) line else line) (splitOn NL src)))"
    unfolding dedentMarkdown_def Let_def f ..
  then have "dedentMarkdown src =
      (if int (minLeading src) \<le> 0 then src
       else joinWith NL (map (stripLine (minLeading src)) (splitOn NL src)))"
    by (simp only: lam)
  then show ?thesis by simp
qed

lemma dedentMarkdown_strip:
  "dedentMarkdown src = joinWith NL (map (stripLine (minLeading src)) (splitOn NL src))"
  by (simp add: dedentMarkdown_cases stripLine_0 joinWith_splitOn)

lemma stripLine_no_NL: "NL \<notin> set l \<Longrightarrow> NL \<notin> set (stripLine n l)"
  by (auto simp: stripLine_def dest: in_set_dropD)

lemma splitOn_dedentMarkdown:
  "splitOn NL (dedentMarkdown src) = map (stripLine (minLeading src)) (splitOn NL src)"
proof -
  have ne: "map (stripLine (minLeading src)) (splitOn NL src) \<noteq> []"
    by (simp add: splitOn_not_Nil)
  have nl: "\<forall>l\<in>set (map (stripLine (minLeading src)) (splitOn NL src)). NL \<notin> set l"
    using splitOn_lines_no_sep [of _ NL src] stripLine_no_NL by fastforce
  show ?thesis
    using splitOn_joinWith [OF ne nl] by (simp only: dedentMarkdown_strip)
qed

lemma minLeading_le:
  "l \<in> set (splitOn NL src) \<Longrightarrow> TrimSpace l \<noteq> [] \<Longrightarrow> minLeading src \<le> leadingWhitespace l"
proof -
  assume "l \<in> set (splitOn NL src)" and "TrimSpace l \<noteq> []"
  then have m: "l \<in> set (nonBlankLines src)" by (simp add: nonBlankLines_def)
  then have "nonBlankLines src \<noteq> []" by auto
  moreover have "Min (leadingWhitespace ` set (nonBlankLines src)) \<le> leadingWhitespace l"
    using m by (intro Min_le) auto
  ultimately show ?thesis by (simp add: minLeading_def)
qed

lemma stripLine_nonblank:
  assumes "l \<in> set (splitOn NL src)" and "TrimSpace l \<noteq> []"
  shows "stripLine (minLeading src) l = drop (minLeading src) l"
    and "TrimSpace (stripLine (minLeading src) l) = TrimSpace l"
    and "leadingWhitespace (stripLine (minLeading src) l) + minLeading src = leadingWhitespace l"
proof -
  have le: "minLeading src \<le> leadingWhitespace l" using assms by (rule minLeading_le)
  then have "minLeading src \<le> length l"
    using leadingWhitespace_le_length [of l] by simp
  then show s: "stripLine (minLeading src) l = drop (minLeading src) l"
    by (simp add: stripLine_def)
  show "TrimSpace (stripLine (minLeading src) l) = TrimSpace l"
    using le by (simp add: s TrimSpace_drop_leading)
  show "leadingWhitespace (stripLine (minLeading src) l) + minLeading src = leadingWhitespace l"
    using le by (simp add: s leadingWhitespace_drop)
qed

lemma minLeading_attained:
  "minLeading src \<noteq> 0 \<Longrightarrow>
     \<exists>l\<in>set (splitOn NL src). TrimSpace l \<noteq> [] \<and> leadingWhitespace l = minLeading src"
proof -
  assume nz: "minLeading src \<noteq> 0"
  then have ne: "nonBlankLines src \<noteq> []" by (auto simp: minLeading_def)
  then have "Min (leadingWhitespace ` set (nonBlankLines src)) \<in>
      leadingWhitespace ` set (nonBlankLines src)"
    by (intro Min_in) auto
  then obtain l where "l \<in> set (nonBlankLines src)"
      and "leadingWhitespace l = Min (leadingWhitespace ` set (nonBlankLines src))"
    by auto
  then show ?thesis using ne by (auto simp: minLeading_def nonBlankLines_def)
qed

lemma minLeading_dedentMarkdown: "minLeading (dedentMarkdown src) = 0"
proof (cases "minLeading src = 0")
  case True
  then show ?thesis by (simp add: dedentMarkdown_cases)
next
  case False
  then obtain l where l: "l \<in> set (splitOn NL src)" "TrimSpace l \<noteq> []"
      and lw: "leadingWhitespace l = minLeading src"
    using minLeading_attained by blast
  let ?l' = "stripLine (minLeading src) l"
  have "?l' \<in> set (splitOn NL (dedentMarkdown src))"
    using l(1) by (simp add: splitOn_dedentMarkdown)
  moreover have "TrimSpace ?l' \<noteq> []" using stripLine_nonblank(2) [OF l] l(2) by simp
  ultimately have "minLeading (dedentMarkdown src) \<le> leadingWhitespace ?l'"
    by (rule minLeading_le)
  moreover have "leadingWhitespace ?l' = 0" using stripLine_nonblank(3) [OF l] lw by simp
  ultimately show ?thesis by simp
qed

lemmas text_eval =
  TrimSpace_def trimLeft.simps trimRight.simps spaceWidth_def spaceWidthEnd_def spaceRunes_def
  hasPrefix_def hasSuffix_def dedentMarkdown_def minIndentStep_def docMarkdown_def
  summaryText_def summarySpec_def collapseNewlines_def

section \<open>Claims about the dedent algorithm\<close>

text \<open>
  C9. \<^const>\<open>dedentMarkdown\<close> is idempotent: dedenting a dedented text changes nothing.
\<close>

theorem dedentMarkdown_idempotent:
  "dedentMarkdown (dedentMarkdown src) = dedentMarkdown src"
  using minLeading_dedentMarkdown [of src]
  by (subst dedentMarkdown_cases) simp

text \<open>
  C5. \<^const>\<open>dedentMarkdown\<close> splits the text into lines, takes the minimum
  leading-whitespace count over the non-blank lines (\<^const>\<open>minLeading\<close>, which is 0 when
  every line is blank) and strips that many leading bytes from every line that is at
  least that long, leaving shorter lines as they are (\<^const>\<open>stripLine\<close>). The number of
  lines is preserved, every non-blank line stays non-blank, and the indentation of every
  non-blank line drops by exactly the minimum, so the indentation of the non-blank lines
  relative to each other is preserved.
\<close>

theorem dedentMarkdown_lines:
  "dedentMarkdown src = joinWith NL (map (stripLine (minLeading src)) (splitOn NL src)) \<and>
   length (splitOn NL (dedentMarkdown src)) = length (splitOn NL src) \<and>
   (\<forall>i < length (splitOn NL src). TrimSpace (splitOn NL src ! i) \<noteq> [] \<longrightarrow>
      TrimSpace (splitOn NL (dedentMarkdown src) ! i) \<noteq> [] \<and>
      leadingWhitespace (splitOn NL (dedentMarkdown src) ! i) + minLeading src =
        leadingWhitespace (splitOn NL src ! i))"
proof (intro conjI allI impI)
  show "dedentMarkdown src = joinWith NL (map (stripLine (minLeading src)) (splitOn NL src))"
    by (rule dedentMarkdown_strip)
  show "length (splitOn NL (dedentMarkdown src)) = length (splitOn NL src)"
    by (simp add: splitOn_dedentMarkdown)
next
  fix i
  assume i: "i < length (splitOn NL src)" and nb: "TrimSpace (splitOn NL src ! i) \<noteq> []"
  let ?l = "splitOn NL src ! i"
  have m: "?l \<in> set (splitOn NL src)" using i by simp
  have e: "splitOn NL (dedentMarkdown src) ! i = stripLine (minLeading src) ?l"
    using i by (simp add: splitOn_dedentMarkdown)
  show "TrimSpace (splitOn NL (dedentMarkdown src) ! i) \<noteq> []"
    using stripLine_nonblank(2) [OF m nb] nb by (simp add: e)
  show "leadingWhitespace (splitOn NL (dedentMarkdown src) ! i) + minLeading src =
      leadingWhitespace (splitOn NL src ! i)"
    using stripLine_nonblank(3) [OF m nb] by (simp add: e)
qed

theorem dedentMarkdown_lines_witness:
  "dedentMarkdown (''  a'' @ [NL] @ ''    b'') = ''a'' @ [NL] @ ''  b'' \<and>
   leadingWhitespace (splitOn NL (''a'' @ [NL] @ ''  b'') ! 1) + 2 =
     leadingWhitespace (splitOn NL (''  a'' @ [NL] @ ''    b'') ! 1)"
proof -
  have sp: "splitOn NL (''  a'' @ [NL] @ ''    b'') = [''  a'', ''    b'']" by simp
  have d: "dedentMarkdown (''  a'' @ [NL] @ ''    b'') = ''a'' @ [NL] @ ''  b''"
    by (simp add: text_eval)
  have t: "TrimSpace ''    b'' \<noteq> []" by (simp add: text_eval)
  have nbl: "nonBlankLines (''  a'' @ [NL] @ ''    b'') \<noteq> []"
    unfolding nonBlankLines_def sp using t by simp
  have f: "foldl minIndentStep (- 1) (splitOn NL (''  a'' @ [NL] @ ''    b'')) = 2"
    by (simp add: text_eval)
  have m: "minLeading (''  a'' @ [NL] @ ''    b'') = 2"
    using minLeading_fold [of "''  a'' @ [NL] @ ''    b''"] nbl f by simp
  have i: "1 < length (splitOn NL (''  a'' @ [NL] @ ''    b''))" by simp
  have nb: "TrimSpace (splitOn NL (''  a'' @ [NL] @ ''    b'') ! 1) \<noteq> []"
    unfolding sp using t by simp
  have "leadingWhitespace (splitOn NL (dedentMarkdown (''  a'' @ [NL] @ ''    b'')) ! 1)
      + minLeading (''  a'' @ [NL] @ ''    b'') =
      leadingWhitespace (splitOn NL (''  a'' @ [NL] @ ''    b'') ! 1)"
    using dedentMarkdown_lines [of "''  a'' @ [NL] @ ''    b''"] i nb by blast
  then show ?thesis by (simp only: d m)
qed

section \<open>Facts about trimming\<close>

lemma spaceRunes_nonempty: "e \<in> set spaceRunes \<Longrightarrow> e \<noteq> []"
  by (auto simp: spaceRunes_def)

lemma spaceWidth_zero_iff:
  "spaceWidth s = 0 \<longleftrightarrow> (\<forall>e\<in>set spaceRunes. \<not> hasPrefix s e)"
proof (cases "find (hasPrefix s) spaceRunes")
  case None
  then have "\<forall>e\<in>set spaceRunes. \<not> hasPrefix s e" by (simp add: find_None_iff)
  moreover have "spaceWidth s = 0" by (simp add: spaceWidth_def None)
  ultimately show ?thesis by simp
next
  case (Some e)
  then have "e \<in> set spaceRunes" and "hasPrefix s e"
    by (auto simp: find_Some_iff)
  moreover from this have "length e \<noteq> 0" using spaceRunes_nonempty by auto
  ultimately show ?thesis using Some by (auto simp: spaceWidth_def)
qed

lemma spaceWidthEnd_pos:
  "spaceWidthEnd s \<noteq> 0 \<Longrightarrow> \<exists>e\<in>set spaceRunes. hasSuffix s e \<and> spaceWidthEnd s = length e"
proof (cases "find (hasSuffix s) spaceRunes")
  case None
  assume "spaceWidthEnd s \<noteq> 0"
  with None show ?thesis by (simp add: spaceWidthEnd_def)
next
  case (Some e)
  then have "e \<in> set spaceRunes" and "hasSuffix s e"
    by (auto simp: find_Some_iff)
  then show ?thesis using Some by (auto simp: spaceWidthEnd_def)
qed

lemma hasPrefix_append: "hasPrefix p e \<Longrightarrow> hasPrefix (p @ z) e"
proof -
  assume h: "hasPrefix p e"
  then have "length (take (length e) p) = length e" by (simp add: hasPrefix_def)
  then have "length e \<le> length p" by simp
  with h show ?thesis by (simp add: hasPrefix_def)
qed

lemma spaceWidth_prefix: "spaceWidth (p @ z) = 0 \<Longrightarrow> spaceWidth p = 0"
  using hasPrefix_append by (auto simp: spaceWidth_zero_iff)

lemma spaceWidth_Nil: "spaceWidth [] = 0"
  using spaceRunes_nonempty by (auto simp: spaceWidth_zero_iff hasPrefix_def)

lemma spaceWidth_NL: "spaceWidth (NL # l) = 1"
  by (simp add: spaceWidth_def spaceRunes_def hasPrefix_def)

lemma trimLeft_spaceWidth: "spaceWidth (trimLeft s) = 0"
proof (induction s rule: trimLeft.induct)
  case (1 s)
  show ?case
  proof (cases "spaceWidth s = 0 \<or> s = []")
    case True
    then have "trimLeft s = s" by (simp add: trimLeft.simps [of s])
    with True show ?thesis by (auto simp: spaceWidth_Nil)
  next
    case False
    then have "trimLeft s = trimLeft (drop (spaceWidth s) s)"
      by (simp add: trimLeft.simps [of s])
    with False 1 show ?thesis by simp
  qed
qed

lemma trimRight_prefix: "\<exists>z. s = trimRight s @ z"
proof (induction s rule: trimRight.induct)
  case (1 s)
  show ?case
  proof (cases "spaceWidthEnd s = 0 \<or> s = []")
    case True
    then have "trimRight s = s" by (simp add: trimRight.simps [of s])
    then show ?thesis by simp
  next
    case False
    let ?y = "take (length s - spaceWidthEnd s) s"
    from False have r: "trimRight s = trimRight ?y" by (simp add: trimRight.simps [of s])
    from False 1 obtain z where "?y = trimRight ?y @ z" by blast
    then have "s = trimRight ?y @ (z @ drop (length s - spaceWidthEnd s) s)"
      by (metis append.assoc append_take_drop_id)
    with r show ?thesis by metis
  qed
qed

lemma trimRight_nonempty: "s \<noteq> [] \<Longrightarrow> spaceWidth s = 0 \<Longrightarrow> trimRight s \<noteq> []"
proof (induction s rule: trimRight.induct)
  case (1 s)
  show ?case
  proof (cases "spaceWidthEnd s = 0 \<or> s = []")
    case True
    then have "trimRight s = s" by (simp add: trimRight.simps [of s])
    with "1.prems" show ?thesis by simp
  next
    case False
    let ?y = "take (length s - spaceWidthEnd s) s"
    from False have r: "trimRight s = trimRight ?y" by (simp add: trimRight.simps [of s])
    from False obtain e where e: "e \<in> set spaceRunes" "hasSuffix s e" "spaceWidthEnd s = length e"
      using spaceWidthEnd_pos by blast
    have y: "?y \<noteq> []"
    proof
      assume "?y = []"
      then have "length s \<le> length e" using e(3) "1.prems"(1) by simp
      moreover have le: "length e \<le> length s" using e(2) by (simp add: hasSuffix_def)
      ultimately have z: "length s - length e = 0" by simp
      have "drop (length s - length e) s = e" using e(2) by (simp add: hasSuffix_def)
      then have "drop 0 s = e" unfolding z .
      then have "take (length e) s = e" by simp
      then have "hasPrefix s e" by (simp only: hasPrefix_def)
      with e(1) "1.prems"(2) show False by (auto simp: spaceWidth_zero_iff)
    qed
    have "s = ?y @ drop (length s - spaceWidthEnd s) s" by simp
    then have "spaceWidth ?y = 0" using "1.prems"(2) spaceWidth_prefix by metis
    with False y "1.IH" have "trimRight ?y \<noteq> []" by blast
    with r show ?thesis by simp
  qed
qed

lemma TrimSpace_Nil: "TrimSpace [] = []"
  by (simp add: TrimSpace_def trimLeft.simps [of "[]"] trimRight.simps [of "[]"])

lemma TrimSpace_spaceWidth: "spaceWidth (TrimSpace s) = 0"
proof -
  obtain z where "trimLeft s = trimRight (trimLeft s) @ z" using trimRight_prefix by blast
  then have "spaceWidth (trimRight (trimLeft s) @ z) = 0"
    using trimLeft_spaceWidth [of s] by simp
  then show ?thesis unfolding TrimSpace_def by (rule spaceWidth_prefix)
qed

lemma TrimSpace_nonempty: "s \<noteq> [] \<Longrightarrow> spaceWidth s = 0 \<Longrightarrow> TrimSpace s \<noteq> []"
proof -
  assume ne: "s \<noteq> []" and w: "spaceWidth s = 0"
  then have "trimLeft s = s" by (simp add: trimLeft.simps [of s])
  then show ?thesis using trimRight_nonempty [OF ne w] by (simp add: TrimSpace_def)
qed

lemma dedentMarkdown_no_leading_space:
  assumes "spaceWidth t = 0"
  shows "dedentMarkdown t = t"
proof (cases t)
  case Nil
  then have "nonBlankLines t = []" by (simp add: nonBlankLines_def TrimSpace_Nil)
  then show ?thesis by (simp add: dedentMarkdown_cases minLeading_def)
next
  case (Cons c r)
  with assms have c: "c \<noteq> NL" "c \<noteq> CHR '' ''" "c \<noteq> CHR 0x09"
    using spaceWidth_NL [of r] spaceWidth_space [of r] spaceWidth_tab [of r] by auto
  let ?l = "hd (splitOn NL t)"
  have l: "?l = c # takeWhile (\<lambda>c. c \<noteq> NL) r"
    using Cons c(1) by (simp add: hd_splitOn)
  have "t = ?l @ dropWhile (\<lambda>c. c \<noteq> NL) t" by (simp add: hd_splitOn)
  then have "spaceWidth ?l = 0" using assms spaceWidth_prefix by metis
  then have nb: "TrimSpace ?l \<noteq> []" using l by (intro TrimSpace_nonempty) simp_all
  have m: "?l \<in> set (splitOn NL t)" by (simp add: splitOn_not_Nil)
  have "minLeading t \<le> leadingWhitespace ?l" using m nb by (rule minLeading_le)
  moreover have "leadingWhitespace ?l = 0" using l c by simp
  ultimately show ?thesis by (simp add: dedentMarkdown_cases)
qed

lemma docMarkdown_TrimSpace: "docMarkdown text = TrimSpace text"
proof -
  have "dedentMarkdown (TrimSpace text) = TrimSpace text"
    using TrimSpace_spaceWidth by (rule dedentMarkdown_no_leading_space)
  then show ?thesis by (simp add: docMarkdown_def Let_def)
qed

section \<open>Claims about the first-sentence summary\<close>

text \<open>
  What \<^const>\<open>summaryText\<close> computes. The documentation text is trimmed first; the dedent
  algorithm then runs on the trimmed text, whose first line has no indentation, and
  changes nothing (\<open>docMarkdown_TrimSpace\<close>). So the summary is the trimmed text with
  every newline turned into a space, cut after the period of the first period-space and
  trimmed, or that whole text, trimmed, when it has no period-space. The text
  \<^verbatim>\<open>Does X. Does Y.\<close> has the summary \<^verbatim>\<open>Does X.\<close>.
\<close>

theorem summaryText_trims_first:
  "summaryText text =
     (let md = collapseNewlines (TrimSpace text) in
      case indexOf md ''. '' of
        Some idx \<Rightarrow> TrimSpace (take (idx + 1) md)
      | None \<Rightarrow> TrimSpace md) \<and>
   summaryText ''Does X. Does Y.'' = ''Does X.''"
proof
  show "summaryText text =
     (let md = collapseNewlines (TrimSpace text) in
      case indexOf md ''. '' of
        Some idx \<Rightarrow> TrimSpace (take (idx + 1) md)
      | None \<Rightarrow> TrimSpace md)"
  proof (cases "TrimSpace text = []")
    case True
    then show ?thesis
      by (simp add: summaryText_def docMarkdown_TrimSpace collapseNewlines_def TrimSpace_Nil)
  next
    case False
    then show ?thesis
      by (simp add: summaryText_def docMarkdown_TrimSpace Let_def)
  qed
  show "summaryText ''Does X. Does Y.'' = ''Does X.''"
    by (simp add: text_eval)
qed

text \<open>
  C4. The summary is the documentation text dedented, its newlines collapsed to spaces,
  cut after the period of the first period-space, and trimmed (\<^const>\<open>summarySpec\<close>).
  The code calls the dedent algorithm only after \<^verbatim>\<open>strings.TrimSpace\<close>, which has taken the
  indentation of the first line away, so the minimum is 0 and nothing is stripped. For
  the text \<^verbatim>\<open>" a\n  b"\<close>, where dedenting removes one space from each line, the claim gives
  \<^verbatim>\<open>a  b\<close> and the code \<^verbatim>\<open>a   b\<close>.
\<close>

theorem summaryText_trims_before_dedent:
  "summaryText ('' a'' @ [NL] @ ''  b'') = ''a   b'' \<and>
   summarySpec ('' a'' @ [NL] @ ''  b'') = ''a  b''"
  by (simp add: text_eval)

section \<open>Facts about the symbol view\<close>

lemma splitOn_Cons_case:
  "splitOn sep (c # cs) =
     (if c = sep then [] # splitOn sep cs
      else (case splitOn sep cs of [] \<Rightarrow> [[c]] | l # ls \<Rightarrow> (c # l) # ls))"
  using splitOn_not_Nil [of sep cs] by (cases "splitOn sep cs") simp_all

lemma namesMatch_iff:
  "namesMatch equalFold r ns name \<longleftrightarrow> (\<exists>n\<in>set ns. matchName equalFold r n name)"
  by (induction ns) auto

lemma renderEach_filter:
  "renderEach matches render xs (w, b) =
     (w @ concat (map render (filter matches xs)), b \<or> filter matches xs \<noteq> [])"
proof (induction xs arbitrary: w b)
  case Nil
  then show ?case by (simp add: renderEach_def)
next
  case (Cons x xs)
  have step: "renderEach matches render (x # xs) (w, b) =
      renderEach matches render xs (if matches x then (w @ render x, True) else (w, b))"
    by (simp add: renderEach_def)
  show ?case
  proof (cases "matches x")
    case True
    then show ?thesis by (simp add: step Cons.IH)
  next
    case False
    then show ?thesis by (simp add: step Cons.IH)
  qed
qed

lemma typeMembers_step:
  "renderEach (\<lambda>f. matchName equalFold r (fName f) target)
     (\<lambda>f. renderFuncDoc r f (tName t)) (tFuncs t)
     (renderEach (\<lambda>v. valueHasName equalFold r v target) (renderValueDoc r) (tVars t)
       (renderEach (\<lambda>v. valueHasName equalFold r v target) (renderValueDoc r) (tConsts t)
         (w, b))) =
   (w @ concat (typeMemberMatches equalFold r target t),
    b \<or> typeMemberMatches equalFold r target t \<noteq> [])"
  by (auto simp: renderEach_filter typeMemberMatches_def)

lemma typeMembers_loop:
  "foldl (\<lambda>st t.
      renderEach (\<lambda>f. matchName equalFold r (fName f) target)
        (\<lambda>f. renderFuncDoc r f (tName t)) (tFuncs t)
        (renderEach (\<lambda>v. valueHasName equalFold r v target) (renderValueDoc r) (tVars t)
          (renderEach (\<lambda>v. valueHasName equalFold r v target) (renderValueDoc r) (tConsts t)
            st))) (w, b) ts =
   (w @ concat (concat (map (typeMemberMatches equalFold r target) ts)),
    b \<or> concat (map (typeMemberMatches equalFold r target) ts) \<noteq> [])"
proof (induction ts arbitrary: w b)
  case Nil
  then show ?case by simp
next
  case (Cons t ts)
  show ?case
    by (simp only: foldl_Cons typeMembers_step Cons.IH) auto
qed

lemma renderTypeDoc_nonempty: "renderTypeDoc r t \<noteq> []"
  by (simp add: renderTypeDoc_def)

lemma renderFuncDoc_nonempty: "renderFuncDoc r f receiver \<noteq> []"
  by (simp add: renderFuncDoc_def bulletLine_def Let_def)

lemma renderValueDoc_nonempty: "renderValueDoc r v \<noteq> []"
  by (simp add: renderValueDoc_def bulletLine_def)

lemmas render_nonempty =
  renderTypeDoc_nonempty renderFuncDoc_nonempty renderValueDoc_nonempty
  renderTypeDoc_nonempty [THEN not_sym] renderFuncDoc_nonempty [THEN not_sym]
  renderValueDoc_nonempty [THEN not_sym]

lemma typeMemberMatches_nonempty:
  "b \<in> set (typeMemberMatches equalFold r target t) \<Longrightarrow> b \<noteq> []"
  by (auto simp: typeMemberMatches_def render_nonempty)

lemma symbolMatches_nonempty: "b \<in> set (symbolMatches equalFold r target) \<Longrightarrow> b \<noteq> []"
  by (auto simp: symbolMatches_def render_nonempty dest: typeMemberMatches_nonempty)

lemma concat_nonempty: "(\<And>b. b \<in> set bs \<Longrightarrow> b \<noteq> []) \<Longrightarrow> concat bs \<noteq> [] \<longleftrightarrow> bs \<noteq> []"
  by (cases bs) auto

lemmas render_eval =
  renderSymbol_def renderEach_def matchName_def valueHasName_def renderTypeDoc_def
  renderFuncDoc_def renderValueDoc_def renderFuncsSection_def renderValuesSection_def
  writeCodeBlock_def writeDoc_def bulletLine_def valueTitle_def asciiEqualFold_def
  asciiLower_def exampleRenderer_def exampleGreeter_def symbolMatches_def
  symbolMatchesSpec_def typeMemberMatches_def

section \<open>Claims about the symbol view\<close>

text \<open>
  C1 (as amended). The symbol view matches the name against every type, every top-level
  function, every top-level constant and variable and, for each type, its associated
  constants, variables and constructor functions; it does not look at the methods of a
  type. Every such match is rendered, in that order (\<^const>\<open>symbolMatches\<close>), and the view
  returns true if and only if at least one match was rendered, which is also if and only
  if it wrote anything.
\<close>

theorem renderSymbol_matches:
  "renderSymbol equalFold r target =
     (concat (symbolMatches equalFold r target), symbolMatches equalFold r target \<noteq> []) \<and>
   (snd (renderSymbol equalFold r target) \<longleftrightarrow> fst (renderSymbol equalFold r target) \<noteq> [])"
proof -
  have e: "renderSymbol equalFold r target =
     (concat (symbolMatches equalFold r target), symbolMatches equalFold r target \<noteq> [])"
    unfolding renderSymbol_def Let_def
    by (simp only: renderEach_filter typeMembers_loop)
       (auto simp: symbolMatches_def)
  have "concat (symbolMatches equalFold r target) \<noteq> [] \<longleftrightarrow>
      symbolMatches equalFold r target \<noteq> []"
    using symbolMatches_nonempty by (rule concat_nonempty)
  with e show ?thesis by simp
qed

theorem renderSymbol_matches_witness:
  "renderSymbol asciiEqualFold exampleRenderer ''newgreeter'' =
     (''#### Greeter.NewGreeter'' @ [NL, NL] @ ''```go'' @ [NL]
        @ ''func NewGreeter(name string) *Greeter'' @ [NL] @ ''```'' @ [NL, NL]
        @ ''NewGreeter makes one.'' @ [NL, NL], True)"
proof -
  have "symbolMatches asciiEqualFold exampleRenderer ''newgreeter'' =
     [''#### Greeter.NewGreeter'' @ [NL, NL] @ ''```go'' @ [NL]
        @ ''func NewGreeter(name string) *Greeter'' @ [NL] @ ''```'' @ [NL, NL]
        @ ''NewGreeter makes one.'' @ [NL, NL]]"
    by (simp add: symbolMatches_def typeMemberMatches_def matchName_def valueHasName_def
          asciiEqualFold_def asciiLower_def exampleRenderer_def exampleGreeter_def)
       (simp add: renderFuncDoc_def writeDoc_def text_eval splitOn_Cons_case
          del: splitOn.simps(2))
  then show ?thesis
    using renderSymbol_matches [of asciiEqualFold exampleRenderer "''newgreeter''"] by simp
qed

text \<open>
  C1 as stated fails on a name that only a method has: the type \<^verbatim>\<open>Greeter\<close> has the method
  \<^verbatim>\<open>Greet\<close>, whose name matches \<^verbatim>\<open>greet\<close>, yet the symbol view renders nothing and returns
  false.
\<close>

theorem renderSymbol_skips_methods_counterexample:
  "matchName asciiEqualFold exampleRenderer (fName (hd (tMethods exampleGreeter))) ''greet'' \<and>
   renderSymbol asciiEqualFold exampleRenderer ''greet'' = ([], False) \<and>
   symbolMatchesSpec asciiEqualFold exampleRenderer ''greet'' \<noteq> []"
  by (simp add: render_eval)

end
